theory Spec2Isabelle
  imports Complex_Main "HOL-Library.Sublist" "HOL-Library.Monad_Syntax"
begin

section \<open>Conventions of the embedding\<close>

text \<open>
  The TypeScript sources are embedded function by function.

  \<^item> A JavaScript \<open>number\<close> that the program only stores, copies, tests against zero or
    prints is an exact rational (\<open>rat\<close>); the counters \<open>retryCount\<close> and \<open>iteration\<close> are
    \<open>int\<close>.
  \<^item> The numbers the tree pruner computes with (the results of \<open>parseInt\<close>, their sums and
    their differences) are IEEE 754 doubles with integer values, \<open>Infinity\<close>, \<open>-Infinity\<close>
    or \<open>NaN\<close>: the type \<open>jsint\<close> below, with the rounding of the double arithmetic.
  \<^item> A JavaScript string is a \<open>string\<close>; a \<open>char\<close> stands for one UTF-16 code unit in
    the range U+0000 .. U+00FF, so \<open>length\<close> is \<open>.length\<close>.
  \<^item> An optional field \<open>f?: T\<close> is a field of type \<open>T option\<close> (\<open>None\<close> is \<open>undefined\<close>).
  \<^item> A thrown value is a \<open>thrown\<close>; a call that may throw returns \<open>thrown + 'a\<close>
    with \<open>Inl\<close> for the throw.  \<open>console.log\<close> and \<open>console.error\<close> are left out.
\<close>

type_synonym number = rat

datatype thrown = ErrorObj string | NonError

text \<open>\<open>error instanceof Error ? error.message : fallback\<close>\<close>

fun messageOr :: "thrown \<Rightarrow> string \<Rightarrow> string" where
  "messageOr (ErrorObj m) fallback = m"
| "messageOr NonError fallback = fallback"

text \<open>Truthiness of an optional string, and \<open>a || b\<close> on strings.\<close>

fun truthy :: "string option \<Rightarrow> bool" where
  "truthy None = False"
| "truthy (Some s) = (s \<noteq> [])"

fun orElse :: "string option \<Rightarrow> string \<Rightarrow> string" where
  "orElse None d = d"
| "orElse (Some s) d = (if s = [] then d else s)"

subsection \<open>Doubles with integer values\<close>

text \<open>
  \<open>Fin i\<close> is the double whose value is the integer \<open>i\<close> (the two zeros are not told
  apart: no operation used here distinguishes them).

  \<open>nearestDouble n\<close> is the double nearest to the natural number \<open>n\<close>, a tie going to the
  even significand.  Every integer below \<open>2^53\<close> is a double.  From \<open>2^1024 - 2^970\<close>, half
  way between the largest double and \<open>2^1024\<close>, the result is \<open>Infinity\<close>.  In between,
  \<open>n\<close> has \<open>bitLength n\<close> bits, of which a double keeps the leading 53: with \<open>u\<close> the
  weight of the last bit kept, \<open>n\<close> goes to the nearer of the two multiples of \<open>u\<close> around
  it.  \<open>jsNumber\<close> extends this to the negative integers.
\<close>

datatype jsint = Fin int | PosInf | NegInf | NaN

fun bitLength :: "nat \<Rightarrow> nat" where
  "bitLength n = (if n = 0 then 0 else Suc (bitLength (n div 2)))"

declare bitLength.simps [simp del]

definition nearestDouble :: "nat \<Rightarrow> jsint" where
  "nearestDouble n =
     (if n < 2 ^ 53 then Fin (int n)
      else if 2 ^ 1024 - 2 ^ 970 \<le> n then PosInf
      else
        (let u = 2 ^ (bitLength n - 53); q = n div u; r = n mod u
         in Fin (int (u * (if 2 * r < u \<or> (2 * r = u \<and> even q) then q else q + 1)))))"

fun jsNeg :: "jsint \<Rightarrow> jsint" where
  "jsNeg (Fin i) = Fin (- i)"
| "jsNeg PosInf = NegInf"
| "jsNeg NegInf = PosInf"
| "jsNeg NaN = NaN"

definition jsNumber :: "int \<Rightarrow> jsint" where
  "jsNumber i = (if 0 \<le> i then nearestDouble (nat i) else jsNeg (nearestDouble (nat (- i))))"

text \<open>
  \<open>a + b\<close> and \<open>a - b\<close> on such doubles: the exact sum, rounded; an infinity absorbs a
  finite operand; \<open>Infinity - Infinity\<close> is \<open>NaN\<close>, and \<open>NaN\<close> propagates.
\<close>

fun jsAdd :: "jsint \<Rightarrow> jsint \<Rightarrow> jsint" where
  "jsAdd (Fin a) (Fin b) = jsNumber (a + b)"
| "jsAdd (Fin a) PosInf = PosInf"
| "jsAdd (Fin a) NegInf = NegInf"
| "jsAdd PosInf (Fin b) = PosInf"
| "jsAdd PosInf PosInf = PosInf"
| "jsAdd PosInf NegInf = NaN"
| "jsAdd NegInf (Fin b) = NegInf"
| "jsAdd NegInf PosInf = NaN"
| "jsAdd NegInf NegInf = NegInf"
| "jsAdd NaN b = NaN"
| "jsAdd a NaN = NaN"

definition jsSub :: "jsint \<Rightarrow> jsint \<Rightarrow> jsint" where
  "jsSub a b = jsAdd a (jsNeg b)"

text \<open>
  \<open>a <= 0\<close>, which is false of \<open>NaN\<close>; and \<open>Math.round(s / 2)\<close>: halving a double with
  an integer value is exact, and \<open>Math.round\<close> takes a half up, to \<open>\<lfloor>s/2 + 1/2\<rfloor>\<close>.
\<close>

fun atMostZero :: "jsint \<Rightarrow> bool" where
  "atMostZero (Fin i) = (i \<le> 0)"
| "atMostZero PosInf = False"
| "atMostZero NegInf = True"
| "atMostZero NaN = False"

fun mathRoundHalf :: "jsint \<Rightarrow> jsint" where
  "mathRoundHalf (Fin s) = Fin ((s + 1) div 2)"
| "mathRoundHalf PosInf = PosInf"
| "mathRoundHalf NegInf = NegInf"
| "mathRoundHalf NaN = NaN"

section \<open>types.ts: the data model\<close>

record Bounds =
  x1 :: jsint
  y1 :: jsint
  x2 :: jsint
  y2 :: jsint
  centerX :: jsint
  centerY :: jsint

record PrunedElement =
  resourceId :: "string option"
  elText :: "string option"  \<comment> \<open>the field text\<close>
  contentDesc :: "string option"
  className :: string
  bounds :: Bounds
  clickable :: bool
  enabled :: bool

record SelectorHint =
  sh_type :: string
  sh_value :: "string option"
  sh_x :: "number option"
  sh_y :: "number option"

record ActionParams =
  p_x :: "number option"
  p_y :: "number option"
  p_text :: "string option"
  p_direction :: "string option"
  p_duration :: "number option"
  p_selector :: "SelectorHint option"
  p_elementDescription :: "string option"

record ReasonerOutput =
  thought :: string
  action :: string
  params :: ActionParams
  targetElement :: string

section \<open>state.ts: the agent state and the patches the nodes return\<close>

record AgentState =
  screenshot :: string
  uiTree :: "PrunedElement list"
  goal :: string
  actionHistory :: "string list"
  retryCount :: int
  errors :: "string list"
  isComplete :: bool
  lastAction :: "ReasonerOutput option"
  iteration :: int

text \<open>\<open>Partial<AgentStateType>\<close>: a key that the node does not return is \<open>None\<close>.\<close>

record Patch =
  u_screenshot :: "string option"
  u_uiTree :: "PrunedElement list option"
  u_actionHistory :: "string list option"
  u_retryCount :: "int option"
  u_errors :: "string list option"
  u_isComplete :: "bool option"
  u_lastAction :: "ReasonerOutput option"
  u_iteration :: "int option"

definition emptyPatch :: Patch where
  "emptyPatch = \<lparr> u_screenshot = None, u_uiTree = None, u_actionHistory = None,
     u_retryCount = None, u_errors = None, u_isComplete = None, u_lastAction = None,
     u_iteration = None \<rparr>"

section \<open>graph.ts: the router\<close>

definition MAX_RETRIES :: int where
  "MAX_RETRIES = 3"

definition MAX_ITERATIONS :: int where
  "MAX_ITERATIONS = 15"

datatype route = Continue | End

definition router :: "AgentState \<Rightarrow> route" where
  "router state =
     (if isComplete state then End
      else if retryCount state \<ge> MAX_RETRIES then End
      else if iteration state \<ge> MAX_ITERATIONS then End
      else Continue)"

section \<open>drivers/types.ts: the device driver\<close>

record ElementResult =
  er_found :: bool
  er_x :: "number option"
  er_y :: "number option"
  er_width :: "number option"
  er_height :: "number option"
  er_text :: "string option"
  er_error :: "string option"

datatype LocatorStrategy =
    AccessibilityId string
  | ResourceId string
  | TextLocator string
  | XPath string
  | Coordinates number number

text \<open>
  The driver is an external device.  Every method call is appended to a trace, and what a
  call answers (a value or a throw) may depend on all the calls made before it, so a
  driver is any deterministic device.  The methods the embedded code calls are
  \<open>getScreenshot\<close>, \<open>getPageSource\<close>, \<open>tap\<close>, \<open>type\<close>, \<open>swipe\<close>, \<open>waitFor\<close> and the
  three element lookups.
\<close>

datatype call =
    GetScreenshot
  | GetPageSource
  | Tap number number
  | TypeText string
  | Swipe string number
  | WaitFor number
  | FindByAccessibilityId string
  | FindByResourceId string
  | FindByText string

record driver =
  getScreenshot :: "call list \<Rightarrow> thrown + string"
  getPageSource :: "call list \<Rightarrow> thrown + string"
  tap :: "call list \<Rightarrow> number \<Rightarrow> number \<Rightarrow> thrown + unit"
  typeText :: "call list \<Rightarrow> string \<Rightarrow> thrown + unit"
  swipe :: "call list \<Rightarrow> string \<Rightarrow> number \<Rightarrow> thrown + unit"
  waitFor :: "call list \<Rightarrow> number \<Rightarrow> thrown + unit"
  findByAccessibilityId :: "call list \<Rightarrow> string \<Rightarrow> thrown + ElementResult"
  findByResourceId :: "call list \<Rightarrow> string \<Rightarrow> thrown + ElementResult"
  findByText :: "call list \<Rightarrow> string \<Rightarrow> thrown + ElementResult"

section \<open>utils/hybrid-locator.ts\<close>

record HealingEvent =
  timestamp :: nat
  attemptedLocator :: LocatorStrategy
  success :: bool
  ev_method :: string  \<comment> \<open>the field method\<close>
  coordinates :: "(number \<times> number) option"
  error :: "string option"
  healingTriggered :: bool

record HybridLocateResult =
  lr_found :: bool
  lr_x :: "number option"
  lr_y :: "number option"
  lr_method :: string
  lr_healingTriggered :: bool
  lr_error :: "string option"

text \<open>
  The vision fallback answers a coordinate pair, \<open>null\<close>, or throws.
\<close>

type_synonym VisionFallbackFn = "string \<Rightarrow> string \<Rightarrow> thrown + (number \<times> number) option"

text \<open>
  The private fields of the class, apart from the driver, which never changes and is passed
  beside it.
\<close>

record HybridLocator =
  healingLog :: "HealingEvent list"
  visionFallback :: "VisionFallbackFn option"

definition logEvent :: "HealingEvent \<Rightarrow> HybridLocator \<Rightarrow> HybridLocator" where
  "logEvent event this = this\<lparr>healingLog := healingLog this @ [event]\<rparr>"

fun trySelector :: "driver \<Rightarrow> LocatorStrategy \<Rightarrow> call list \<Rightarrow> (thrown + ElementResult) \<times> call list" where
  "trySelector d (AccessibilityId v) tr = (findByAccessibilityId d tr v, tr @ [FindByAccessibilityId v])"
| "trySelector d (ResourceId v) tr = (findByResourceId d tr v, tr @ [FindByResourceId v])"
| "trySelector d (TextLocator v) tr = (findByText d tr v, tr @ [FindByText v])"
| "trySelector d (XPath v) tr =
     (Inr \<lparr>er_found = False, er_x = None, er_y = None, er_width = None, er_height = None,
           er_text = None, er_error = Some ''XPath requires direct driver access''\<rparr>, tr)"
| "trySelector d (Coordinates x y) tr =
     (Inr \<lparr>er_found = True, er_x = Some x, er_y = Some y, er_width = None, er_height = None,
           er_text = None, er_error = None\<rparr>, tr)"

text \<open>
  \<open>locate\<close>.  The argument \<open>now\<close> is what \<open>new Date()\<close> reads when the event is logged.
  The result is what the call returns or throws, the locator afterwards and the trace of
  driver calls afterwards.
\<close>

definition locate ::
  "driver \<Rightarrow> nat \<Rightarrow> LocatorStrategy \<Rightarrow> string \<Rightarrow> HybridLocator \<Rightarrow> call list
   \<Rightarrow> (thrown + HybridLocateResult) \<times> HybridLocator \<times> call list" where
  "locate d now locator elementDescription this tr =
     (case trySelector d locator tr of
        (Inl e, tr1) \<Rightarrow> (Inl e, this, tr1)
      | (Inr selectorResult, tr1) \<Rightarrow>
          (case (er_found selectorResult, er_x selectorResult, er_y selectorResult) of
             (True, Some x, Some y) \<Rightarrow>
               (Inr \<lparr>lr_found = True, lr_x = Some x, lr_y = Some y, lr_method = ''selector'',
                     lr_healingTriggered = False, lr_error = None\<rparr>,
                logEvent \<lparr>timestamp = now, attemptedLocator = locator, success = True,
                          ev_method = ''selector'', coordinates = Some (x, y), error = None,
                          healingTriggered = False\<rparr> this,
                tr1)
           | _ \<Rightarrow>
               (let (visionResult, tr2) =
                      (case visionFallback this of
                         None \<Rightarrow> (None, tr1)
                       | Some vf \<Rightarrow>
                           (case getScreenshot d tr1 of
                              Inl e \<Rightarrow> (None, tr1 @ [GetScreenshot])
                            | Inr shot \<Rightarrow>
                                (case vf elementDescription shot of
                                   Inl e \<Rightarrow> (None, tr1 @ [GetScreenshot])
                                 | Inr r \<Rightarrow> (r, tr1 @ [GetScreenshot]))))
                in case visionResult of
                     Some (vx, vy) \<Rightarrow>
                       (Inr \<lparr>lr_found = True, lr_x = Some vx, lr_y = Some vy, lr_method = ''vision'',
                             lr_healingTriggered = True, lr_error = None\<rparr>,
                        logEvent \<lparr>timestamp = now, attemptedLocator = locator, success = True,
                                  ev_method = ''vision'', coordinates = Some (vx, vy), error = None,
                                  healingTriggered = True\<rparr> this,
                        tr2)
                   | None \<Rightarrow>
                       (Inr \<lparr>lr_found = False, lr_x = None, lr_y = None, lr_method = ''none'',
                             lr_healingTriggered = (visionFallback this \<noteq> None),
                             lr_error = Some (orElse (er_error selectorResult) ''Element not found'')\<rparr>,
                        logEvent \<lparr>timestamp = now, attemptedLocator = locator, success = False,
                                  ev_method = ''selector'', coordinates = None,
                                  error = er_error selectorResult,
                                  healingTriggered = (visionFallback this \<noteq> None)\<rparr> this,
                        tr2))))"

record HealingStats =
  totalAttempts :: nat
  selectorSuccesses :: nat
  visionSuccesses :: nat
  failures :: nat
  healingRate :: number

definition getHealingStats :: "HybridLocator \<Rightarrow> HealingStats" where
  "getHealingStats this =
     (let total = length (healingLog this);
          selectorSuccesses = length (filter (\<lambda>e. success e \<and> ev_method e = ''selector'') (healingLog this));
          visionSuccesses = length (filter (\<lambda>e. success e \<and> ev_method e = ''vision'') (healingLog this));
          failures = length (filter (\<lambda>e. \<not> success e) (healingLog this));
          healingRate = (if total > 0 then of_nat visionSuccesses / of_nat total else 0)
      in \<lparr>totalAttempts = total, selectorSuccesses = selectorSuccesses,
          visionSuccesses = visionSuccesses, failures = failures, healingRate = healingRate\<rparr>)"

section \<open>utils/xml-parser.ts: the tree pruner\<close>

text \<open>
  \<open>BOUNDS_REGEX\<close> is \<open>/\[(\d+),(\d+)\]\[(\d+),(\d+)\]/\<close>, without anchors.  \<open>matchBoundsAt\<close>
  matches it at the start of a string and returns the four groups and what follows the
  match; \<open>\d+\<close> takes the longest run of digits, which is the only way to match since a
  literal that is not a digit follows it.  \<open>matchBounds\<close> is \<open>boundsStr.match(BOUNDS_REGEX)\<close>:
  the match at the leftmost position that has one.
\<close>

definition isDigit :: "char \<Rightarrow> bool" where
  "isDigit c = (c \<in> set ''0123456789'')"

fun lit :: "char \<Rightarrow> string \<Rightarrow> string option" where
  "lit c [] = None"
| "lit c (x # xs) = (if x = c then Some xs else None)"

definition digits1 :: "string \<Rightarrow> (string \<times> string) option" where
  "digits1 s = (if takeWhile isDigit s = [] then None
                else Some (takeWhile isDigit s, dropWhile isDigit s))"

definition matchBoundsAt :: "string \<Rightarrow> ((string \<times> string \<times> string \<times> string) \<times> string) option" where
  "matchBoundsAt s =
     do {
       r1 \<leftarrow> lit CHR ''['' s;
       (g1, r2) \<leftarrow> digits1 r1;
       r3 \<leftarrow> lit CHR '','' r2;
       (g2, r4) \<leftarrow> digits1 r3;
       r5 \<leftarrow> lit CHR '']'' r4;
       r6 \<leftarrow> lit CHR ''['' r5;
       (g3, r7) \<leftarrow> digits1 r6;
       r8 \<leftarrow> lit CHR '','' r7;
       (g4, r9) \<leftarrow> digits1 r8;
       r10 \<leftarrow> lit CHR '']'' r9;
       Some ((g1, g2, g3, g4), r10)
     }"

fun matchBounds :: "string \<Rightarrow> (string \<times> string \<times> string \<times> string) option" where
  "matchBounds [] = map_option fst (matchBoundsAt [])"
| "matchBounds (c # cs) =
     (case matchBoundsAt (c # cs) of
        Some (groups, rest) \<Rightarrow> Some groups
      | None \<Rightarrow> matchBounds cs)"

text \<open>
  \<open>parseInt(g, 10)\<close> on a group of the match, a non-empty string of digits: the integer the
  digits denote, converted to the nearest double.  (The language standard lets an
  implementation replace the digits after the twentieth by zeros before the conversion; V8
  converts all of them.  The two agree on every integer below \<open>2^53\<close>, on \<open>2^53 + 1\<close>, and on
  \<open>1\<close> followed by 309 zeros, which is all that the properties below rest on.)  Then
  \<open>parseBounds\<close>, with \<open>x1 + x2\<close> a double sum and \<open>Math.round((x1 + x2) / 2)\<close> its rounded
  half.
\<close>

definition digitValue :: "char \<Rightarrow> nat" where
  "digitValue c = of_char c - 48"

definition decimalValue :: "string \<Rightarrow> nat" where
  "decimalValue ds = foldl (\<lambda>n c. 10 * n + digitValue c) 0 ds"

definition parseInt :: "string \<Rightarrow> jsint" where
  "parseInt ds = nearestDouble (decimalValue ds)"

definition parseBounds :: "string \<Rightarrow> Bounds option" where
  "parseBounds boundsStr =
     (case matchBounds boundsStr of
        None \<Rightarrow> None
      | Some (g1, g2, g3, g4) \<Rightarrow>
          (let x1 = parseInt g1; y1 = parseInt g2; x2 = parseInt g3; y2 = parseInt g4
           in Some \<lparr>x1 = x1, y1 = y1, x2 = x2, y2 = y2,
                    centerX = mathRoundHalf (jsAdd x1 x2),
                    centerY = mathRoundHalf (jsAdd y1 y2)\<rparr>))"

definition MAX_TEXT_LENGTH :: nat where
  "MAX_TEXT_LENGTH = 50"

definition isSpace :: "char \<Rightarrow> bool" where
  "isSpace c = (of_char c \<in> {9, 10, 11, 12, 13, 32, 160 :: nat})"

definition trim :: "string \<Rightarrow> string" where
  "trim s = rev (dropWhile isSpace (rev (dropWhile isSpace s)))"

fun truncateText :: "string option \<Rightarrow> string option" where
  "truncateText None = None"
| "truncateText (Some t) =
     (if t = [] then None
      else if length (trim t) = 0 then None
      else if length (trim t) \<le> MAX_TEXT_LENGTH then Some (trim t)
      else Some (take MAX_TEXT_LENGTH (trim t) @ ''...''))"

definition hasIdentifiableContent :: "(string \<rightharpoonup> string) \<Rightarrow> bool" where
  "hasIdentifiableContent attrs =
     (truthy (attrs ''resource-id'') \<or> truthy (attrs ''text'') \<or> truthy (attrs ''content-desc''))"

definition isVisible :: "(string \<rightharpoonup> string) \<Rightarrow> bool" where
  "isVisible attrs =
     (if attrs ''displayed'' = Some ''false'' then False
      else case parseBounds (orElse (attrs ''bounds'') '''') of
             None \<Rightarrow> False
           | Some b \<Rightarrow>
               if atMostZero (jsSub (x2 b) (x1 b)) \<or> atMostZero (jsSub (y2 b) (y1 b))
               then False else True)"

datatype XmlNode =
    NotAnObject
  | XmlObject "(string \<rightharpoonup> string) option" "XmlNode list option list"

fun extractElements :: "XmlNode list \<Rightarrow> PrunedElement list \<Rightarrow> PrunedElement list" where
  "extractElements [] elements = elements"
| "extractElements (NotAnObject # nodes) elements = extractElements nodes elements"
| "extractElements (XmlObject attrWrapper members # nodes) elements =
     (let attrs = (case attrWrapper of None \<Rightarrow> Map.empty | Some a \<Rightarrow> a);
          elements1 =
            (case attrs ''bounds'' of
               None \<Rightarrow> elements
             | Some boundsStr \<Rightarrow>
                 if boundsStr \<noteq> [] \<and> isVisible attrs then
                   (case parseBounds boundsStr of
                      Some b \<Rightarrow>
                        if hasIdentifiableContent attrs \<or> attrs ''clickable'' = Some ''true'' then
                          elements @
                          [\<lparr>resourceId = (if truthy (attrs ''resource-id'') then attrs ''resource-id'' else None),
                            elText = truncateText (attrs ''text''),
                            contentDesc = truncateText (attrs ''content-desc''),
                            className = orElse (attrs ''class'') ''unknown'',
                            bounds = b,
                            clickable = (attrs ''clickable'' = Some ''true''),
                            enabled = (attrs ''enabled'' \<noteq> Some ''false'')\<rparr>]
                        else elements
                    | None \<Rightarrow> elements)
                 else elements);
          elements2 =
            fold (\<lambda>children acc. case children of None \<Rightarrow> acc | Some cs \<Rightarrow> extractElements cs acc)
              members elements1
      in extractElements nodes elements2)"

definition parseAndroidXml :: "(string \<Rightarrow> thrown + XmlNode list) \<Rightarrow> string \<Rightarrow> PrunedElement list" where
  "parseAndroidXml parse xml =
     (case parse xml of
        Inl e \<Rightarrow> []
      | Inr parsed \<Rightarrow> extractElements parsed [])"

section \<open>nodes/reasoner.ts: the response parser\<close>

text \<open>
  What \<open>JSON.parse\<close> returns.  \<open>JSON.parse\<close> itself, the XML parser, the text of a
  \<open>ZodError\<close> and the conversion of a number to a string belong to the runtime and its
  libraries; they are parameters, collected in a record.
\<close>

datatype json =
    JNull
  | JBool bool
  | JNumber number
  | JString string
  | JArray "json list"
  | JObject "(string \<times> json) list"

record runtime =
  jsonParse :: "string \<Rightarrow> thrown + json"
  xmlParse :: "string \<Rightarrow> thrown + XmlNode list"
  zodMessage :: "json \<Rightarrow> string"
  numberToString :: "number \<Rightarrow> string"

text \<open>
  The Zod combinators of \<open>ReasonerOutputSchema\<close> on a parsed JSON object: an optional key
  may be missing and must have the declared type when present (\<open>null\<close> is not missing); a
  required key must be present; unknown keys are dropped.  \<open>None\<close> is a failed validation.
\<close>

definition optionalString :: "(string \<times> json) list \<Rightarrow> string \<Rightarrow> string option option" where
  "optionalString obj key =
     (case map_of obj key of
        None \<Rightarrow> Some None
      | Some (JString s) \<Rightarrow> Some (Some s)
      | Some _ \<Rightarrow> None)"

definition optionalNumber :: "(string \<times> json) list \<Rightarrow> string \<Rightarrow> number option option" where
  "optionalNumber obj key =
     (case map_of obj key of
        None \<Rightarrow> Some None
      | Some (JNumber n) \<Rightarrow> Some (Some n)
      | Some _ \<Rightarrow> None)"

definition optionalEnum :: "string list \<Rightarrow> (string \<times> json) list \<Rightarrow> string \<Rightarrow> string option option" where
  "optionalEnum values obj key =
     (case map_of obj key of
        None \<Rightarrow> Some None
      | Some (JString s) \<Rightarrow> if s \<in> set values then Some (Some s) else None
      | Some _ \<Rightarrow> None)"

definition requiredString :: "(string \<times> json) list \<Rightarrow> string \<Rightarrow> string option" where
  "requiredString obj key =
     (case map_of obj key of
        Some (JString s) \<Rightarrow> Some s
      | _ \<Rightarrow> None)"

definition requiredEnum :: "string list \<Rightarrow> (string \<times> json) list \<Rightarrow> string \<Rightarrow> string option" where
  "requiredEnum values obj key =
     (case map_of obj key of
        Some (JString s) \<Rightarrow> if s \<in> set values then Some s else None
      | _ \<Rightarrow> None)"

definition selectorTypes :: "string list" where
  "selectorTypes = [''accessibilityId'', ''resourceId'', ''text'', ''xpath'', ''coordinates'']"

definition actionKinds :: "string list" where
  "actionKinds = [''click'', ''type'', ''swipe'', ''scroll'', ''wait'', ''done'']"

definition swipeDirections :: "string list" where
  "swipeDirections = [''up'', ''down'', ''left'', ''right'']"

fun SelectorHintSchema :: "json \<Rightarrow> SelectorHint option" where
  "SelectorHintSchema (JObject obj) =
     do {
       t \<leftarrow> requiredEnum selectorTypes obj ''type'';
       v \<leftarrow> optionalString obj ''value'';
       x \<leftarrow> optionalNumber obj ''x'';
       y \<leftarrow> optionalNumber obj ''y'';
       Some \<lparr>sh_type = t, sh_value = v, sh_x = x, sh_y = y\<rparr>
     }"
| "SelectorHintSchema _ = None"

fun paramsSchema :: "json \<Rightarrow> ActionParams option" where
  "paramsSchema (JObject obj) =
     do {
       x \<leftarrow> optionalNumber obj ''x'';
       y \<leftarrow> optionalNumber obj ''y'';
       t \<leftarrow> optionalString obj ''text'';
       direction \<leftarrow> optionalEnum swipeDirections obj ''direction'';
       duration \<leftarrow> optionalNumber obj ''duration'';
       selector \<leftarrow> (case map_of obj ''selector'' of
                        None \<Rightarrow> Some None
                      | Some j \<Rightarrow> map_option Some (SelectorHintSchema j));
       elementDescription \<leftarrow> optionalString obj ''elementDescription'';
       Some \<lparr>p_x = x, p_y = y, p_text = t, p_direction = direction, p_duration = duration,
              p_selector = selector, p_elementDescription = elementDescription\<rparr>
     }"
| "paramsSchema _ = None"

definition emptyParams :: ActionParams where
  "emptyParams = \<lparr>p_x = None, p_y = None, p_text = None, p_direction = None, p_duration = None,
     p_selector = None, p_elementDescription = None\<rparr>"

fun ReasonerOutputSchema :: "json \<Rightarrow> ReasonerOutput option" where
  "ReasonerOutputSchema (JObject obj) =
     do {
       th \<leftarrow> requiredString obj ''thought'';
       a \<leftarrow> requiredEnum actionKinds obj ''action'';
       ps \<leftarrow> (case map_of obj ''params'' of
                  None \<Rightarrow> Some emptyParams
                | Some j \<Rightarrow> paramsSchema j);
       target \<leftarrow> (case map_of obj ''targetElement'' of
                      None \<Rightarrow> Some ''unknown''
                    | Some (JString s) \<Rightarrow> Some s
                    | Some _ \<Rightarrow> None);
       Some \<lparr>thought = th, action = a, params = ps, targetElement = target\<rparr>
     }"
| "ReasonerOutputSchema _ = None"

text \<open>
  The two regular expressions of \<open>parseReasonerResponse\<close>.  \<open>matchFence\<close> is capture group 1
  of \<open>text.match(/```(?:json)?\s*([\s\S]*?)```/)\<close>: at the leftmost position where the whole
  expression matches, with \<open>(?:json)?\<close> and \<open>\s*\<close> greedy and backtracking and the group
  lazy.  \<open>matchObject\<close> is \<open>text.match(/\{[\s\S]*\}/)\<close>: from the leftmost brace that has a
  closing brace after it to the last closing brace.
\<close>

definition fence :: string where
  "fence = ''```''"

fun firstSome :: "('a \<Rightarrow> 'b option) \<Rightarrow> 'a list \<Rightarrow> 'b option" where
  "firstSome f [] = None"
| "firstSome f (x # xs) = (case f x of Some y \<Rightarrow> Some y | None \<Rightarrow> firstSome f xs)"

fun findFence :: "string \<Rightarrow> nat option" where
  "findFence [] = None"
| "findFence (c # cs) =
     (if prefix fence (c # cs) then Some 0 else map_option Suc (findFence cs))"

definition lazyUntilFence :: "string \<Rightarrow> string option" where
  "lazyUntilFence r = map_option (\<lambda>i. take i r) (findFence r)"

definition matchFenceAt :: "string \<Rightarrow> string option" where
  "matchFenceAt s =
     (if prefix fence s then
        (let r0 = drop 3 s
         in firstSome
              (\<lambda>r1. firstSome (\<lambda>k. lazyUntilFence (drop k r1))
                      (rev [0 ..< Suc (length (takeWhile isSpace r1))]))
              ((if prefix ''json'' r0 then [drop 4 r0] else []) @ [r0]))
      else None)"

fun matchFence :: "string \<Rightarrow> string option" where
  "matchFence [] = matchFenceAt []"
| "matchFence (c # cs) =
     (case matchFenceAt (c # cs) of
        Some g \<Rightarrow> Some g
      | None \<Rightarrow> matchFence cs)"

definition matchObjectAt :: "string \<Rightarrow> string option" where
  "matchObjectAt s =
     (case s of
        [] \<Rightarrow> None
      | c # r \<Rightarrow>
          if c = CHR ''{'' \<and> CHR ''}'' \<in> set r
          then Some (c # rev (dropWhile (\<lambda>x. x \<noteq> CHR ''}'') (rev r)))
          else None)"

fun matchObject :: "string \<Rightarrow> string option" where
  "matchObject [] = matchObjectAt []"
| "matchObject (c # cs) =
     (case matchObjectAt (c # cs) of
        Some m \<Rightarrow> Some m
      | None \<Rightarrow> matchObject cs)"

text \<open>
  \<open>extractJsonStr\<close> is the first part of \<open>parseReasonerResponse\<close>, which computes \<open>jsonStr\<close>.
\<close>

definition extractJsonStr :: "string \<Rightarrow> string" where
  "extractJsonStr response =
     (case matchFence response of
        Some g \<Rightarrow> trim g
      | None \<Rightarrow>
          (case matchObject response of
             Some m \<Rightarrow> m
           | None \<Rightarrow> trim response))"

definition parseReasonerResponse :: "runtime \<Rightarrow> string \<Rightarrow> thrown + ReasonerOutput" where
  "parseReasonerResponse rt response =
     (case jsonParse rt (extractJsonStr response) of
        Inl e \<Rightarrow> Inl e
      | Inr parsed \<Rightarrow>
          (case ReasonerOutputSchema parsed of
             None \<Rightarrow> Inl (ErrorObj (zodMessage rt parsed))
           | Some out \<Rightarrow> Inr out))"

section \<open>nodes/executor.ts\<close>

text \<open>
  The composite operations of the hybrid locator, which only the executor calls.  A
  successful \<open>locateAndTap\<close> returns the coordinates and the method.
\<close>

definition locateAndTap ::
  "driver \<Rightarrow> nat \<Rightarrow> LocatorStrategy \<Rightarrow> string \<Rightarrow> HybridLocator \<Rightarrow> call list
   \<Rightarrow> (thrown + number \<times> number \<times> string) \<times> HybridLocator \<times> call list" where
  "locateAndTap d now locator elementDescription this tr =
     (case locate d now locator elementDescription this tr of
        (Inl e, this1, tr1) \<Rightarrow> (Inl e, this1, tr1)
      | (Inr result, this1, tr1) \<Rightarrow>
          (case (lr_found result, lr_x result, lr_y result) of
             (True, Some x, Some y) \<Rightarrow>
               (case tap d tr1 x y of
                  Inl e \<Rightarrow> (Inl e, this1, tr1 @ [Tap x y])
                | Inr u \<Rightarrow> (Inr (x, y, lr_method result), this1, tr1 @ [Tap x y]))
           | _ \<Rightarrow>
               (Inl (ErrorObj (''Failed to locate element: '' @ elementDescription @ ''. ''
                                @ orElse (lr_error result) [])),
                this1, tr1)))"

definition locateAndType ::
  "driver \<Rightarrow> nat \<Rightarrow> LocatorStrategy \<Rightarrow> string \<Rightarrow> string \<Rightarrow> HybridLocator \<Rightarrow> call list
   \<Rightarrow> (thrown + number \<times> number \<times> string) \<times> HybridLocator \<times> call list" where
  "locateAndType d now locator elementDescription txt this tr =
     (case locateAndTap d now locator elementDescription this tr of
        (Inl e, this1, tr1) \<Rightarrow> (Inl e, this1, tr1)
      | (Inr tapResult, this1, tr1) \<Rightarrow>
          (case waitFor d tr1 200 of
             Inl e \<Rightarrow> (Inl e, this1, tr1 @ [WaitFor 200])
           | Inr u \<Rightarrow>
               (case typeText d (tr1 @ [WaitFor 200]) txt of
                  Inl e \<Rightarrow> (Inl e, this1, tr1 @ [WaitFor 200, TypeText txt])
                | Inr u \<Rightarrow> (Inr tapResult, this1, tr1 @ [WaitFor 200, TypeText txt]))))"

definition DEFAULT_WAIT_MS :: number where
  "DEFAULT_WAIT_MS = 500"

definition DEFAULT_SWIPE_DURATION :: number where
  "DEFAULT_SWIPE_DURATION = 300"

definition numberOr :: "number option \<Rightarrow> number \<Rightarrow> number" where
  "numberOr v d = (case v of None \<Rightarrow> d | Some n \<Rightarrow> if n = 0 then d else n)"

text \<open>
  \<open>selectorToLocator\<close>.  The \<open>switch\<close> has no default: for a type outside the five it
  returns \<open>undefined\<close>, here \<open>None\<close>.
\<close>

definition selectorToLocator :: "SelectorHint \<Rightarrow> LocatorStrategy option" where
  "selectorToLocator selector =
     (if sh_type selector = ''accessibilityId'' then Some (AccessibilityId (orElse (sh_value selector) []))
      else if sh_type selector = ''resourceId'' then Some (ResourceId (orElse (sh_value selector) []))
      else if sh_type selector = ''text'' then Some (TextLocator (orElse (sh_value selector) []))
      else if sh_type selector = ''xpath'' then Some (XPath (orElse (sh_value selector) []))
      else if sh_type selector = ''coordinates''
        then Some (Coordinates (numberOr (sh_x selector) 0) (numberOr (sh_y selector) 0))
      else None)"

definition truncated20 :: "string \<Rightarrow> string" where
  "truncated20 t = (if length t > 20 then take 20 t @ ''...'' else t)"

text \<open>
  The \<open>switch\<close> of the executor either leaves a history entry and goes on to the settle
  delay, or returns a patch at once (the \<open>done\<close> case), or throws.  \<open>executorTry\<close> is the
  body of the \<open>try\<close> block and \<open>executor\<close> adds the \<open>catch\<close> block.  An undefined locator
  makes \<open>locateAndTap\<close> throw a \<open>TypeError\<close>, which the inner \<open>catch\<close> discards.
\<close>

datatype switch_outcome = Break string | Return Patch

definition executorSwitch ::
  "runtime \<Rightarrow> driver \<Rightarrow> nat \<Rightarrow> ReasonerOutput \<Rightarrow> HybridLocator \<Rightarrow> call list
   \<Rightarrow> (thrown + switch_outcome) \<times> HybridLocator \<times> call list" where
  "executorSwitch rt d now a this tr =
     (if action a = ''click'' then
        (case (case p_selector (params a) of
                 Some selector \<Rightarrow> if sh_type selector \<noteq> ''coordinates'' then Some selector else None
               | None \<Rightarrow> None) of
           Some selector \<Rightarrow>
             (let description = orElse (p_elementDescription (params a))
                                  (orElse (Some (targetElement a)) ''unknown element'');
                  located = (case selectorToLocator selector of
                               Some locator \<Rightarrow> locateAndTap d now locator description this tr
                             | None \<Rightarrow> (Inl NonError, this, tr))
              in case located of
                   (Inr (x, y, m), this1, tr1) \<Rightarrow>
                     (Inr (Break (''Clicked '' @ description @ '' at ('' @ numberToString rt x
                                   @ '', '' @ numberToString rt y @ '') via '' @ m
                                   @ (if m = ''vision'' then '' [HEALED]'' else []))),
                      this1, tr1)
                 | (Inl e, this1, tr1) \<Rightarrow>
                     (case (p_x (params a), p_y (params a)) of
                        (Some x, Some y) \<Rightarrow>
                          (case tap d tr1 x y of
                             Inl e2 \<Rightarrow> (Inl e2, this1, tr1 @ [Tap x y])
                           | Inr u \<Rightarrow>
                               (Inr (Break (''Clicked at ('' @ numberToString rt x @ '', ''
                                             @ numberToString rt y @ '') - '' @ targetElement a
                                             @ '' (fallback to coordinates)'')),
                                this1, tr1 @ [Tap x y]))
                      | _ \<Rightarrow>
                          (Inl (ErrorObj (''Failed to locate element: '' @ description)), this1, tr1)))
         | None \<Rightarrow>
             (case (p_x (params a), p_y (params a)) of
                (Some x, Some y) \<Rightarrow>
                  (case tap d tr x y of
                     Inl e \<Rightarrow> (Inl e, this, tr @ [Tap x y])
                   | Inr u \<Rightarrow>
                       (Inr (Break (''Clicked at ('' @ numberToString rt x @ '', ''
                                     @ numberToString rt y @ '') - '' @ targetElement a)),
                        this, tr @ [Tap x y]))
              | _ \<Rightarrow>
                  (Inl (ErrorObj ''Click action requires x and y coordinates or selector hint''),
                   this, tr)))
      else if action a = ''type'' then
        (case p_text (params a) of
           None \<Rightarrow> (Inl (ErrorObj ''Type action requires text parameter''), this, tr)
         | Some txt \<Rightarrow>
             if txt = [] then (Inl (ErrorObj ''Type action requires text parameter''), this, tr)
             else
               (case (case p_selector (params a) of
                        Some selector \<Rightarrow> if sh_type selector \<noteq> ''coordinates'' then Some selector else None
                      | None \<Rightarrow> None) of
                  Some selector \<Rightarrow>
                    (let description = orElse (p_elementDescription (params a))
                                         (orElse (Some (targetElement a)) ''input field'');
                         located = (case selectorToLocator selector of
                                      Some locator \<Rightarrow> locateAndType d now locator description txt this tr
                                    | None \<Rightarrow> (Inl NonError, this, tr))
                     in case located of
                          (Inr (x, y, m), this1, tr1) \<Rightarrow>
                            (Inr (Break (''Typed \"'' @ truncated20 txt @ ''\" into '' @ description
                                          @ '' via '' @ m
                                          @ (if m = ''vision'' then '' [HEALED]'' else []))),
                             this1, tr1)
                        | (Inl e, this1, tr1) \<Rightarrow>
                            (case typeText d tr1 txt of
                               Inl e2 \<Rightarrow> (Inl e2, this1, tr1 @ [TypeText txt])
                             | Inr u \<Rightarrow>
                                 (Inr (Break (''Typed \"'' @ truncated20 txt @ ''\" (field already focused)'')),
                                  this1, tr1 @ [TypeText txt])))
                | None \<Rightarrow>
                    (case typeText d tr txt of
                       Inl e \<Rightarrow> (Inl e, this, tr @ [TypeText txt])
                     | Inr u \<Rightarrow>
                         (Inr (Break (''Typed \"'' @ truncated20 txt @ ''\" into '' @ targetElement a)),
                          this, tr @ [TypeText txt]))))
      else if action a = ''swipe'' \<or> action a = ''scroll'' then
        (case p_direction (params a) of
           None \<Rightarrow> (Inl (ErrorObj ''Scroll/swipe action requires direction parameter''), this, tr)
         | Some direction \<Rightarrow>
             if direction = [] then
               (Inl (ErrorObj ''Scroll/swipe action requires direction parameter''), this, tr)
             else
               (case swipe d tr direction DEFAULT_SWIPE_DURATION of
                  Inl e \<Rightarrow> (Inl e, this, tr @ [Swipe direction DEFAULT_SWIPE_DURATION])
                | Inr u \<Rightarrow>
                    (Inr (Break (''Scrolled '' @ direction)),
                     this, tr @ [Swipe direction DEFAULT_SWIPE_DURATION])))
      else if action a = ''wait'' then
        (let duration = numberOr (p_duration (params a)) DEFAULT_WAIT_MS
         in case waitFor d tr duration of
              Inl e \<Rightarrow> (Inl e, this, tr @ [WaitFor duration])
            | Inr u \<Rightarrow>
                (Inr (Break (''Waited '' @ numberToString rt duration @ ''ms'')),
                 this, tr @ [WaitFor duration]))
      else if action a = ''done'' then
        (Inr (Return (emptyPatch\<lparr>u_isComplete := Some True,
                                  u_actionHistory := Some [''Goal completed: '' @ thought a]\<rparr>)),
         this, tr)
      else (Inl (ErrorObj (''Unknown action type: '' @ action a)), this, tr))"

definition executorTry ::
  "runtime \<Rightarrow> driver \<Rightarrow> nat \<Rightarrow> ReasonerOutput \<Rightarrow> HybridLocator \<Rightarrow> call list
   \<Rightarrow> (thrown + Patch) \<times> HybridLocator \<times> call list" where
  "executorTry rt d now a this tr =
     (case executorSwitch rt d now a this tr of
        (Inl e, this1, tr1) \<Rightarrow> (Inl e, this1, tr1)
      | (Inr (Return patch), this1, tr1) \<Rightarrow> (Inr patch, this1, tr1)
      | (Inr (Break historyEntry), this1, tr1) \<Rightarrow>
          (case waitFor d tr1 DEFAULT_WAIT_MS of
             Inl e \<Rightarrow> (Inl e, this1, tr1 @ [WaitFor DEFAULT_WAIT_MS])
           | Inr u \<Rightarrow>
               (Inr (emptyPatch\<lparr>u_actionHistory := Some [historyEntry], u_retryCount := Some 0\<rparr>),
                this1, tr1 @ [WaitFor DEFAULT_WAIT_MS])))"

definition executor ::
  "runtime \<Rightarrow> driver \<Rightarrow> nat \<Rightarrow> AgentState \<Rightarrow> HybridLocator \<Rightarrow> call list
   \<Rightarrow> Patch \<times> HybridLocator \<times> call list" where
  "executor rt d now state this tr =
     (case lastAction state of
        None \<Rightarrow> (emptyPatch, this, tr)
      | Some a \<Rightarrow>
          (case executorTry rt d now a this tr of
             (Inr patch, this1, tr1) \<Rightarrow> (patch, this1, tr1)
           | (Inl e, this1, tr1) \<Rightarrow>
               (let errorMessage = messageOr e ''Unknown executor error''
                in (emptyPatch\<lparr>u_errors := Some [''Executor failed: '' @ errorMessage],
                               u_retryCount := Some (retryCount state + 1),
                               u_actionHistory := Some [''FAILED: '' @ action a @ '' - '' @ errorMessage]\<rparr>,
                    this1, tr1))))"

section \<open>nodes/observer.ts\<close>



section \<open>nodes/reasoner.ts: the reasoner node\<close>




section \<open>state.ts: merging a patch into the state\<close>

text \<open>
  The reducers of \<open>AgentState\<close>: a key that is absent from the patch leaves the field as it
  was.
\<close>

definition applyPatch :: "AgentState \<Rightarrow> Patch \<Rightarrow> AgentState" where
  "applyPatch prev next =
     \<lparr>screenshot = (case u_screenshot next of None \<Rightarrow> screenshot prev | Some v \<Rightarrow> v),
      uiTree = (case u_uiTree next of None \<Rightarrow> uiTree prev | Some v \<Rightarrow> v),
      goal = goal prev,
      actionHistory = (case u_actionHistory next of None \<Rightarrow> actionHistory prev
                       | Some v \<Rightarrow> actionHistory prev @ v),
      retryCount = (case u_retryCount next of None \<Rightarrow> retryCount prev | Some v \<Rightarrow> v),
      errors = (case u_errors next of None \<Rightarrow> errors prev | Some v \<Rightarrow> errors prev @ v),
      isComplete = (case u_isComplete next of None \<Rightarrow> isComplete prev | Some v \<Rightarrow> v),
      lastAction = (case u_lastAction next of None \<Rightarrow> lastAction prev | Some v \<Rightarrow> Some v),
      iteration = (case u_iteration next of None \<Rightarrow> iteration prev
                   | Some v \<Rightarrow> if v = 0 then 0 else iteration prev + 1)\<rparr>"

section \<open>Notions used to state the properties\<close>

text \<open>
  A non-empty string of decimal digits; the text \<open>[a,b][c,d]\<close>; a string that is such a
  text from its first to its last character; the attribute records of all the object nodes
  of a parsed hierarchy; and what relates an emitted element to the attributes of the node
  it is emitted for.
\<close>

definition digitString :: "string \<Rightarrow> bool" where
  "digitString ds = (ds \<noteq> [] \<and> list_all isDigit ds)"

definition boundsText :: "string \<Rightarrow> string \<Rightarrow> string \<Rightarrow> string \<Rightarrow> string" where
  "boundsText a b c d = ''['' @ a @ '','' @ b @ '']['' @ c @ '','' @ d @ '']''"

definition isBoundsText :: "string \<Rightarrow> bool" where
  "isBoundsText s = (\<exists>a b c d. digitString a \<and> digitString b \<and> digitString c \<and> digitString d
                       \<and> s = boundsText a b c d)"

fun nodeAttrs :: "XmlNode list \<Rightarrow> (string \<rightharpoonup> string) list" where
  "nodeAttrs [] = []"
| "nodeAttrs (NotAnObject # nodes) = nodeAttrs nodes"
| "nodeAttrs (XmlObject attrWrapper members # nodes) =
     (case attrWrapper of None \<Rightarrow> Map.empty | Some a \<Rightarrow> a)
     # concat (map (\<lambda>children. case children of None \<Rightarrow> [] | Some cs \<Rightarrow> nodeAttrs cs) members)
     @ nodeAttrs nodes"

definition emittedFor :: "(string \<rightharpoonup> string) \<Rightarrow> PrunedElement \<Rightarrow> bool" where
  "emittedFor attrs e =
     (attrs ''displayed'' \<noteq> Some ''false''
      \<and> parseBounds (orElse (attrs ''bounds'') '''') = Some (bounds e)
      \<and> elText e = truncateText (attrs ''text'')
      \<and> contentDesc e = truncateText (attrs ''content-desc''))"

definition emitted :: "XmlNode list \<Rightarrow> PrunedElement \<Rightarrow> bool" where
  "emitted nodes e =
     ((\<exists>attrs \<in> set (nodeAttrs nodes). emittedFor attrs e)
      \<and> \<not> atMostZero (jsSub (x2 (bounds e)) (x1 (bounds e)))
      \<and> \<not> atMostZero (jsSub (y2 (bounds e)) (y1 (bounds e))))"

text \<open>\<open>a > 0\<close> on a double, which is false of \<open>NaN\<close>.\<close>

fun isPositive :: "jsint \<Rightarrow> bool" where
  "isPositive (Fin i) = (0 < i)"
| "isPositive PosInf = True"
| "isPositive NegInf = False"
| "isPositive NaN = False"

text \<open>
  The schema of \<open>types.ts\<close> read as a relation between a parsed JSON value and an output:
  which outputs a value validates to.  An optional field of the output is absent exactly
  when the key is absent from the object, and otherwise the key holds that very string or
  number; the enumerated fields lie in their enumerations; \<open>params\<close> defaults to the empty
  record and \<open>targetElement\<close> to \<open>"unknown"\<close>.
\<close>

definition holdsOptional :: "('a \<Rightarrow> json) \<Rightarrow> json option \<Rightarrow> 'a option \<Rightarrow> bool" where
  "holdsOptional inject field v =
     (case v of None \<Rightarrow> field = None | Some a \<Rightarrow> field = Some (inject a))"

definition conformsSelector :: "json \<Rightarrow> SelectorHint \<Rightarrow> bool" where
  "conformsSelector j h =
     (\<exists>obj. j = JObject obj
        \<and> map_of obj ''type'' = Some (JString (sh_type h))
        \<and> sh_type h \<in> {''accessibilityId'', ''resourceId'', ''text'', ''xpath'', ''coordinates''}
        \<and> holdsOptional JString (map_of obj ''value'') (sh_value h)
        \<and> holdsOptional JNumber (map_of obj ''x'') (sh_x h)
        \<and> holdsOptional JNumber (map_of obj ''y'') (sh_y h))"

definition conformsParams :: "json \<Rightarrow> ActionParams \<Rightarrow> bool" where
  "conformsParams j ps =
     (\<exists>obj. j = JObject obj
        \<and> holdsOptional JNumber (map_of obj ''x'') (p_x ps)
        \<and> holdsOptional JNumber (map_of obj ''y'') (p_y ps)
        \<and> holdsOptional JString (map_of obj ''text'') (p_text ps)
        \<and> holdsOptional JString (map_of obj ''direction'') (p_direction ps)
        \<and> (case p_direction ps of None \<Rightarrow> True
            | Some d \<Rightarrow> d \<in> {''up'', ''down'', ''left'', ''right''})
        \<and> holdsOptional JNumber (map_of obj ''duration'') (p_duration ps)
        \<and> (case p_selector ps of
              None \<Rightarrow> map_of obj ''selector'' = None
            | Some h \<Rightarrow> (\<exists>sj. map_of obj ''selector'' = Some sj \<and> conformsSelector sj h))
        \<and> holdsOptional JString (map_of obj ''elementDescription'') (p_elementDescription ps))"

definition conformsTo :: "json \<Rightarrow> ReasonerOutput \<Rightarrow> bool" where
  "conformsTo j out =
     (\<exists>obj. j = JObject obj
        \<and> map_of obj ''thought'' = Some (JString (thought out))
        \<and> map_of obj ''action'' = Some (JString (action out))
        \<and> action out \<in> {''click'', ''type'', ''swipe'', ''scroll'', ''wait'', ''done''}
        \<and> (case map_of obj ''params'' of
              None \<Rightarrow> params out = \<lparr>p_x = None, p_y = None, p_text = None, p_direction = None,
                                      p_duration = None, p_selector = None,
                                      p_elementDescription = None\<rparr>
            | Some pj \<Rightarrow> conformsParams pj (params out))
        \<and> (case map_of obj ''targetElement'' of
              None \<Rightarrow> targetElement out = ''unknown''
            | Some t \<Rightarrow> t = JString (targetElement out)))"





definition hasFencedBlock :: "string \<Rightarrow> bool" where
  "hasFencedBlock response = (\<exists>pre mid post. response = pre @ fence @ mid @ fence @ post)"

definition hasBraces :: "string \<Rightarrow> bool" where
  "hasBraces response = (\<exists>pre mid post. response = pre @ ''{'' @ mid @ ''}'' @ post)"

section \<open>Concrete devices, locators and logs for the checks at concrete inputs\<close>

text \<open>
  A driver whose three lookups all answer \<open>r\<close> and whose other methods succeed.
\<close>

definition stubDriver :: "(thrown + ElementResult) \<Rightarrow> driver" where
  "stubDriver r =
     \<lparr>getScreenshot = (\<lambda>tr. Inr ''c2NyZWVu''),
      getPageSource = (\<lambda>tr. Inr ''<hierarchy/>''),
      tap = (\<lambda>tr x y. Inr ()),
      typeText = (\<lambda>tr s. Inr ()),
      swipe = (\<lambda>tr dir ms. Inr ()),
      waitFor = (\<lambda>tr ms. Inr ()),
      findByAccessibilityId = (\<lambda>tr v. r),
      findByResourceId = (\<lambda>tr v. r),
      findByText = (\<lambda>tr v. r)\<rparr>"

definition notFound :: "string option \<Rightarrow> ElementResult" where
  "notFound msg = \<lparr>er_found = False, er_x = None, er_y = None, er_width = None,
     er_height = None, er_text = None, er_error = msg\<rparr>"

definition freshLocator :: "VisionFallbackFn option \<Rightarrow> HybridLocator" where
  "freshLocator vf = \<lparr>healingLog = [], visionFallback = vf\<rparr>"

definition sampleEvent :: "bool \<Rightarrow> string \<Rightarrow> HealingEvent" where
  "sampleEvent ok m = \<lparr>timestamp = 0, attemptedLocator = TextLocator ''Login'', success = ok,
     ev_method = m, coordinates = (if ok then Some (540, 450) else None),
     error = (if ok then None else Some ''Element with text 'Login' not found''),
     healingTriggered = (m = ''vision'')\<rparr>"

definition sampleLog :: "HealingEvent list" where
  "sampleLog = replicate 7 (sampleEvent True ''selector'') @ replicate 2 (sampleEvent True ''vision'')
     @ [sampleEvent False ''selector'']"

definition sampleHierarchy :: "XmlNode list" where
  "sampleHierarchy =
     [XmlObject None
        [Some [XmlObject (Some [''bounds'' \<mapsto> ''[0,0][1080,200]'', ''class'' \<mapsto> ''android.widget.TextView'',
                                ''text'' \<mapsto> ''  Welcome back to the demonstration application, please sign in  '']) [],
               XmlObject (Some [''bounds'' \<mapsto> ''[40,300][40,380]'', ''text'' \<mapsto> ''hidden'']) [],
               XmlObject (Some [''bounds'' \<mapsto> ''[40,400][1040,520]'', ''displayed'' \<mapsto> ''false'',
                                ''resource-id'' \<mapsto> ''com.example:id/ghost'']) [],
               XmlObject (Some [''bounds'' \<mapsto> ''[40,600][1040,720]'', ''clickable'' \<mapsto> ''true'',
                                ''resource-id'' \<mapsto> ''com.example:id/login'']) [None]],
         None]]"

text \<open>
  An edge of 310 digits, \<open>1\<close> followed by 309 zeros, and a hierarchy of one node whose two
  horizontal edges are that.
\<close>

definition hugeEdge :: string where
  "hugeEdge = CHR ''1'' # replicate 309 CHR ''0''"

definition overflowHierarchy :: "XmlNode list" where
  "overflowHierarchy =
     [XmlObject (Some [''bounds'' \<mapsto> boundsText hugeEdge ''0'' hugeEdge ''10'', ''text'' \<mapsto> ''OK'']) []]"

definition sampleRuntime :: runtime where
  "sampleRuntime =
     \<lparr>jsonParse = (\<lambda>s. if s = ''{\"thought\":\"tap login\",\"action\":\"click\",\"params\":{\"x\":540,\"y\":660}}''
                        then Inr (JObject [(''thought'', JString ''tap login''), (''action'', JString ''click''),
                                           (''params'', JObject [(''x'', JNumber 540), (''y'', JNumber 660)])])
                        else if s = ''{\"thought\":\"hm\",\"action\":\"tap\"}''
                        then Inr (JObject [(''thought'', JString ''hm''), (''action'', JString ''tap'')])
                        else Inl (ErrorObj ''Unexpected token in JSON'')),
      xmlParse = (\<lambda>xml. Inr sampleHierarchy),
      zodMessage = (\<lambda>j. ''Invalid input''),
      numberToString = (\<lambda>n. ''<number>'')\<rparr>"

definition sampleResponse :: string where
  "sampleResponse = ''Sure: ```json {\"thought\":\"tap login\",\"action\":\"click\",\"params\":{\"x\":540,\"y\":660}} ``` ok''"

definition sampleAction :: "string \<Rightarrow> ActionParams \<Rightarrow> ReasonerOutput" where
  "sampleAction kind ps =
     \<lparr>thought = ''the login form is visible'', action = kind, params = ps,
      targetElement = ''Login button''\<rparr>"

definition sampleState :: "int \<Rightarrow> ReasonerOutput option \<Rightarrow> AgentState" where
  "sampleState retries a =
     \<lparr>screenshot = ''c2NyZWVu'', uiTree = [], goal = ''Log in'', actionHistory = [],
      retryCount = retries, errors = [], isComplete = False, lastAction = a, iteration = 4\<rparr>"




section \<open>Properties of the router\<close>

text \<open>
  Claim C3.  For every agent state the router answers \<open>end\<close> exactly when \<open>isComplete\<close>
  holds, or \<open>retryCount\<close> has reached 3, or \<open>iteration\<close> has reached 15, and \<open>continue\<close>
  otherwise; in particular it answers \<open>end\<close> whenever \<open>isComplete\<close> holds, whatever the two
  counters are.
\<close>

theorem router_end_iff:
  "(router s = End) = (isComplete s \<or> retryCount s \<ge> 3 \<or> iteration s \<ge> 15)
   \<and> (router s = Continue) = (\<not> (isComplete s \<or> retryCount s \<ge> 3 \<or> iteration s \<ge> 15))
   \<and> router (s\<lparr>isComplete := True, retryCount := r, iteration := i\<rparr>) = End"
  by (simp add: router_def MAX_RETRIES_def MAX_ITERATIONS_def)


section \<open>Properties of the hybrid locator\<close>

text \<open>
  Claim C1, amended.  Let the structural lookup return a result that does not carry a found
  flag together with both coordinates, and let the vision fallback yield no coordinate pair:
  it is not configured, or the screenshot or the fallback throws, or the fallback answers
  \<open>null\<close>.  Then \<open>locate\<close> returns a result with \<open>found = false\<close> and \<open>method = "none"\<close>; its
  \<open>healingTriggered\<close> flag says whether a fallback is configured; its error is the lookup's
  error message when that message is present and not the empty string, and
  \<open>"Element not found"\<close> otherwise.
\<close>

theorem locate_not_found:
  assumes sel: "fst (trySelector d locator tr) = Inr sr"
    and nocoord: "\<not> (er_found sr \<and> er_x sr \<noteq> None \<and> er_y sr \<noteq> None)"
    and vis: "\<forall>vf shot p. visionFallback this = Some vf
                \<and> getScreenshot d (snd (trySelector d locator tr)) = Inr shot
                \<longrightarrow> vf elementDescription shot \<noteq> Inr (Some p)"
  shows "\<exists>r this' tr'. locate d now locator elementDescription this tr = (Inr r, this', tr')
           \<and> \<not> lr_found r \<and> lr_method r = ''none''
           \<and> lr_healingTriggered r = (visionFallback this \<noteq> None)
           \<and> lr_error r = Some (case er_error sr of
                                    None \<Rightarrow> ''Element not found''
                                  | Some m \<Rightarrow> if m = [] then ''Element not found'' else m)"
proof -
  obtain res tr1 where ts: "trySelector d locator tr = (res, tr1)" by (cases "trySelector d locator tr")
  with sel have res: "res = Inr sr" by simp
  have vis': "r = None" if "visionFallback this = Some vf" "getScreenshot d tr1 = Inr shot"
      "vf elementDescription shot = Inr r" for vf shot r
    using vis that ts by (cases r) auto
  have err: "orElse (er_error sr) ''Element not found'' = (case er_error sr of
                                    None \<Rightarrow> ''Element not found''
                                  | Some m \<Rightarrow> if m = [] then ''Element not found'' else m)"
    by (cases "er_error sr") auto
  show ?thesis
  proof (cases "visionFallback this")
    case None
    with nocoord show ?thesis
      by (auto simp: locate_def ts res err split: bool.splits option.splits)
  next
    case (Some vf)
    show ?thesis
    proof (cases "getScreenshot d tr1")
      case (Inl e)
      with nocoord Some show ?thesis
        by (auto simp: locate_def ts res err split: bool.splits option.splits)
    next
      case (Inr shot)
      show ?thesis
      proof (cases "vf elementDescription shot")
        case (Inl e)
        with nocoord Some Inr show ?thesis
          by (auto simp: locate_def ts res err split: bool.splits option.splits)
      next
        case vr: (Inr r)
        with vis' [OF Some Inr] have "vf elementDescription shot = Inr None" by simp
        with nocoord Some Inr show ?thesis
          by (auto simp: locate_def ts res err split: bool.splits option.splits)
      qed
    qed
  qed
qed

theorem locate_not_found_witness:
  "fst (trySelector (stubDriver (Inr (notFound (Some ''no such text'')))) (TextLocator ''Login'') [])
     = Inr (notFound (Some ''no such text''))
   \<and> \<not> er_found (notFound (Some ''no such text''))
   \<and> visionFallback (freshLocator (Some (\<lambda>desc shot. Inr None))) \<noteq> None
   \<and> (\<exists>r this' tr'. locate (stubDriver (Inr (notFound (Some ''no such text'')))) 0 (TextLocator ''Login'')
          ''Login button'' (freshLocator (Some (\<lambda>desc shot. Inr None))) [] = (Inr r, this', tr')
        \<and> \<not> lr_found r \<and> lr_method r = ''none'' \<and> lr_healingTriggered r
        \<and> lr_error r = Some ''no such text'')"
proof -
  let ?d = "stubDriver (Inr (notFound (Some ''no such text'')))"
  let ?hl = "freshLocator (Some (\<lambda>desc shot. Inr None))"
  have h1: "fst (trySelector ?d (TextLocator ''Login'') []) = Inr (notFound (Some ''no such text''))"
    by (simp add: stubDriver_def)
  have h2: "\<not> (er_found (notFound (Some ''no such text'')) \<and> er_x (notFound (Some ''no such text'')) \<noteq> None
       \<and> er_y (notFound (Some ''no such text'')) \<noteq> None)"
    by (simp add: notFound_def)
  have h3: "\<forall>vf shot p. visionFallback ?hl = Some vf
       \<and> getScreenshot ?d (snd (trySelector ?d (TextLocator ''Login'') [])) = Inr shot
       \<longrightarrow> vf ''Login button'' shot \<noteq> Inr (Some p)"
    by (auto simp: freshLocator_def)
  from locate_not_found [of ?d "TextLocator ''Login''" "[]" "notFound (Some ''no such text'')" ?hl
      "''Login button''" 0, OF h1 h2 h3]
  have ex: "\<exists>r this' tr'. locate ?d 0 (TextLocator ''Login'') ''Login button'' ?hl [] = (Inr r, this', tr')
        \<and> \<not> lr_found r \<and> lr_method r = ''none'' \<and> lr_healingTriggered r
        \<and> lr_error r = Some ''no such text''"
    by (simp add: notFound_def freshLocator_def)
  have h4: "\<not> er_found (notFound (Some ''no such text''))"
    by (simp add: notFound_def)
  have h5: "visionFallback ?hl \<noteq> None"
    by (simp add: freshLocator_def)
  from h1 h4 h5 ex show ?thesis
    by blast
qed

text \<open>
  The claim as written lets a present message through unchanged.  A lookup that reports the
  empty string as its error message gets \<open>"Element not found"\<close> instead, since \<open>||\<close> takes the
  empty string for absent.
\<close>

theorem locate_empty_error_counterexample:
  "fst (trySelector (stubDriver (Inr (notFound (Some [])))) (TextLocator ''Login'') [])
     = Inr (notFound (Some []))
   \<and> er_error (notFound (Some [])) = Some []
   \<and> fst (locate (stubDriver (Inr (notFound (Some [])))) 0 (TextLocator ''Login'')
          ''Login button'' (freshLocator None) [])
     = Inr \<lparr>lr_found = False, lr_x = None, lr_y = None, lr_method = ''none'',
                 lr_healingTriggered = False, lr_error = Some ''Element not found''\<rparr>"
  by (simp add: locate_def stubDriver_def notFound_def freshLocator_def)

lemma locate_returns_appends:
  assumes sel: "fst (trySelector d locator tr) = Inr sr"
  shows "\<exists>r this' tr' e. locate d now locator elementDescription this tr = (Inr r, this', tr')
           \<and> healingLog this' = healingLog this @ [e]
           \<and> length (healingLog this') = length (healingLog this) + 1"
proof -
  obtain res tr1 where ts: "trySelector d locator tr = (res, tr1)" by (cases "trySelector d locator tr")
  with sel have res: "res = Inr sr" by simp
  show ?thesis
    unfolding locate_def ts res
    by (auto simp: logEvent_def Let_def split: bool.splits option.splits sum.splits prod.splits)
qed

lemma locate_rethrows:
  assumes sel: "fst (trySelector d locator tr) = Inl err"
  shows "locate d now locator elementDescription this tr = (Inl err, this, snd (trySelector d locator tr))"
proof -
  obtain res tr1 where ts: "trySelector d locator tr = (res, tr1)" by (cases "trySelector d locator tr")
  with sel have res: "res = Inl err" by simp
  show ?thesis unfolding locate_def ts res by simp
qed

text \<open>
  Claim C2, amended.  Every call of \<open>locate\<close> whose structural lookup returns a result
  returns itself, by selector, by vision or with both strategies failed, and appends exactly
  one event to the healing log: the log afterwards is the log before with one event at its
  end.  A call whose structural lookup throws rethrows and leaves the locator, and so the
  log, as it was.
\<close>

theorem locate_appends_one:
  "(fst (trySelector d locator tr) = Inr sr \<longrightarrow>
      (\<exists>r this' tr' e. locate d now locator elementDescription this tr = (Inr r, this', tr')
           \<and> healingLog this' = healingLog this @ [e]
           \<and> length (healingLog this') = length (healingLog this) + 1))
   \<and> (fst (trySelector d locator tr) = Inl err \<longrightarrow>
        locate d now locator elementDescription this tr
          = (Inl err, this, snd (trySelector d locator tr)))"
  apply (rule conjI)
   apply (rule impI, erule locate_returns_appends)
  apply (rule impI, erule locate_rethrows)
  done

theorem locate_appends_one_witness:
  "fst (trySelector (stubDriver (Inr (notFound None))) (ResourceId ''login_button'') [])
     = Inr (notFound None)
   \<and> (\<exists>r this' tr'. locate (stubDriver (Inr (notFound None))) 7 (ResourceId ''login_button'')
          ''Login button'' (freshLocator (Some (\<lambda>desc shot. Inr (Some (10, 20))))) [] = (Inr r, this', tr')
        \<and> length (healingLog this') = 1)"
  using locate_appends_one [where d = "stubDriver (Inr (notFound None))"
      and locator = "ResourceId ''login_button''" and tr = "[]" and sr = "notFound None" and now = 7
      and elementDescription = "''Login button''"
      and this = "freshLocator (Some (\<lambda>desc shot. Inr (Some (10, 20))))"]
  by (auto simp add: stubDriver_def notFound_def freshLocator_def)

text \<open>
  A lookup of the driver that throws (the Android driver does when it is not connected) makes
  \<open>locate\<close> throw before any event is logged: the log stays as it was.
\<close>

theorem locate_lookup_throws_counterexample:
  "locate (stubDriver (Inl (ErrorObj ''AndroidDriver not connected. Call connect() first.'')))
       0 (TextLocator ''Login'') ''Login button'' (freshLocator None) []
     = (Inl (ErrorObj ''AndroidDriver not connected. Call connect() first.''),
        freshLocator None, [FindByText ''Login''])
   \<and> length (healingLog (freshLocator None)) = 0"
  by (simp add: locate_def stubDriver_def freshLocator_def)

lemma count_sample:
  "length sampleLog = 10"
  "length (filter (\<lambda>e. success e \<and> ev_method e = ''selector'') sampleLog) = 7"
  "length (filter (\<lambda>e. success e \<and> ev_method e = ''vision'') sampleLog) = 2"
  "length (filter (\<lambda>e. \<not> success e) sampleLog) = 1"
  by (simp_all add: sampleLog_def sampleEvent_def)

text \<open>
  Claim C7, amended.  \<open>getHealingStats\<close> computes \<open>healingRate\<close> as the number of vision
  successes divided by the length of the log, and 0 for the empty log.  For a log of 10
  attempts with 7 selector successes, 2 vision successes and 1 failure it returns the counts
  10, 7, 2 and 1 and \<open>healingRate = 0.2\<close>, and nothing else; the overall success rate 0.9 is
  the ratio of the returned successes to the returned total.
\<close>

theorem getHealingStats_rates:
  "healingRate (getHealingStats this) =
     (if healingLog this = [] then 0
      else of_nat (length (filter (\<lambda>e. success e \<and> ev_method e = ''vision'') (healingLog this)))
           / of_nat (length (healingLog this)))
   \<and> (length (healingLog this) = 10
        \<and> length (filter (\<lambda>e. success e \<and> ev_method e = ''selector'') (healingLog this)) = 7
        \<and> length (filter (\<lambda>e. success e \<and> ev_method e = ''vision'') (healingLog this)) = 2
        \<and> length (filter (\<lambda>e. \<not> success e) (healingLog this)) = 1
       \<longrightarrow> getHealingStats this = \<lparr>totalAttempts = 10, selectorSuccesses = 7, visionSuccesses = 2,
              failures = 1, healingRate = 2 / 10\<rparr>
           \<and> of_nat (selectorSuccesses (getHealingStats this) + visionSuccesses (getHealingStats this))
               / of_nat (totalAttempts (getHealingStats this)) = (9 / 10 :: rat))"
  by (auto simp: getHealingStats_def Let_def)

theorem getHealingStats_rates_witness:
  "length sampleLog = 10
   \<and> getHealingStats \<lparr>healingLog = sampleLog, visionFallback = None\<rparr>
       = \<lparr>totalAttempts = 10, selectorSuccesses = 7, visionSuccesses = 2,
              failures = 1, healingRate = 2 / 10\<rparr>"
  using getHealingStats_rates [of "\<lparr>healingLog = sampleLog, visionFallback = None\<rparr>"]
  by (simp add: count_sample)

text \<open>
  The record returned for such a log has five fields; none of them is an overall success rate,
  and the one rate it holds is 0.2, not 0.9.
\<close>

theorem getHealingStats_no_success_rate_counterexample:
  "getHealingStats \<lparr>healingLog = sampleLog, visionFallback = None\<rparr>
       = \<lparr>totalAttempts = 10, selectorSuccesses = 7, visionSuccesses = 2,
              failures = 1, healingRate = 1 / 5\<rparr>
   \<and> (1 / 5 :: rat) \<noteq> 9 / 10"
  by (simp add: getHealingStats_def Let_def count_sample)

section \<open>Properties of the tree pruner\<close>

lemma lit_Some: "lit c s = Some r \<longleftrightarrow> s = c # r"
  by (cases s) auto

lemma digits1_Some:
  "digits1 s = Some (a, r) \<longleftrightarrow>
     digitString a \<and> s = a @ r \<and> (r = [] \<or> \<not> isDigit (hd r))"
proof
  assume "digits1 s = Some (a, r)"
  then have a: "a = takeWhile isDigit s" and r: "r = dropWhile isDigit s" and ne: "a \<noteq> []"
    by (auto simp: digits1_def split: if_splits)
  have "list_all isDigit a" unfolding a list_all_iff by (auto dest: set_takeWhileD)
  moreover have "s = a @ r" by (simp add: a r)
  moreover have "r = [] \<or> \<not> isDigit (hd r)" unfolding r using hd_dropWhile [of isDigit s] by blast
  ultimately show "digitString a \<and> s = a @ r \<and> (r = [] \<or> \<not> isDigit (hd r))"
    using ne by (simp add: digitString_def)
next
  assume h: "digitString a \<and> s = a @ r \<and> (r = [] \<or> \<not> isDigit (hd r))"
  then have all: "\<forall>x\<in>set a. isDigit x" and ne: "a \<noteq> []" and s: "s = a @ r"
    by (auto simp: digitString_def list_all_iff)
  from h have "takeWhile isDigit r = []" by (cases r) auto
  with all have tw: "takeWhile isDigit s = a" by (simp add: s takeWhile_append2)
  from h have "dropWhile isDigit r = r" by (cases r) auto
  with all have dw: "dropWhile isDigit s = r" by (simp add: s dropWhile_append2)
  show "digits1 s = Some (a, r)" by (simp add: digits1_def tw dw ne)
qed

lemma not_digit: "\<not> isDigit CHR '',''" "\<not> isDigit CHR '']''" "\<not> isDigit CHR ''[''"
  by (simp_all add: isDigit_def)

lemma matchBoundsAt_Some:
  "matchBoundsAt s = Some ((a, b, c, d), r) \<longleftrightarrow>
     digitString a \<and> digitString b \<and> digitString c \<and> digitString d \<and> s = boundsText a b c d @ r"
  unfolding matchBoundsAt_def boundsText_def
  by (auto simp: bind_eq_Some_conv lit_Some digits1_Some not_digit)

lemma matchBounds_None:
  "matchBounds s = None \<longleftrightarrow> (\<forall>p t. s = p @ t \<longrightarrow> matchBoundsAt t = None)"
proof (induction s)
  case Nil
  then show ?case by (simp add: matchBoundsAt_def)
next
  case (Cons x xs)
  have split: "(\<forall>p t. x # xs = p @ t \<longrightarrow> matchBoundsAt t = None) \<longleftrightarrow>
      matchBoundsAt (x # xs) = None \<and> (\<forall>p t. xs = p @ t \<longrightarrow> matchBoundsAt t = None)"
    by (auto simp: Cons_eq_append_conv)
  show ?case
    unfolding split using Cons.IH by (auto split: option.splits)
qed

lemma matchBounds_leftmost:
  assumes m: "matchBoundsAt t = Some (g, r)"
    and none: "\<forall>p1 p2. p = p1 @ p2 \<and> p2 \<noteq> [] \<longrightarrow> matchBoundsAt (p2 @ t) = None"
  shows "matchBounds (p @ t) = Some g"
  using none
proof (induction p)
  case Nil
  from m have "t \<noteq> []" by (auto simp: matchBoundsAt_def)
  then obtain c cs where "t = c # cs" by (cases t) auto
  with m show ?case by simp
next
  case (Cons x p)
  have "x # p = [] @ (x # p) \<and> x # p \<noteq> []" by simp
  with Cons.prems have "matchBoundsAt ((x # p) @ t) = None" by blast
  then have "matchBounds ((x # p) @ t) = matchBounds (p @ t)" by simp
  moreover have "\<forall>p1 p2. p = p1 @ p2 \<and> p2 \<noteq> [] \<longrightarrow> matchBoundsAt (p2 @ t) = None"
  proof (intro allI impI)
    fix p1 p2 assume "p = p1 @ p2 \<and> p2 \<noteq> []"
    then have "x # p = (x # p1) @ p2 \<and> p2 \<noteq> []" by simp
    with Cons.prems show "matchBoundsAt (p2 @ t) = None" by blast
  qed
  ultimately show ?case using Cons.IH by simp
qed

lemma matchBounds_exact:
  assumes "digitString a" "digitString b" "digitString c" "digitString d"
  shows "matchBounds (boundsText a b c d) = Some (a, b, c, d)"
proof -
  have m: "matchBoundsAt (boundsText a b c d) = Some ((a, b, c, d), [])"
    using assms by (simp add: matchBoundsAt_Some)
  from matchBounds_leftmost [of "boundsText a b c d" "(a, b, c, d)" "[]" "[]"] m
  show ?thesis by simp
qed

lemma matchBounds_occurrence:
  assumes d: "digitString a" "digitString b" "digitString c" "digitString d"
    and s: "s = p @ boundsText a b c d @ q"
    and least: "\<forall>p' a' b' c' d' q'.
        digitString a' \<and> digitString b' \<and> digitString c' \<and> digitString d'
        \<and> s = p' @ boundsText a' b' c' d' @ q' \<longrightarrow> length p \<le> length p'"
  shows "matchBounds s = Some (a, b, c, d)"
proof -
  have m: "matchBoundsAt (boundsText a b c d @ q) = Some ((a, b, c, d), q)"
    using d by (simp add: matchBoundsAt_Some)
  have "\<forall>p1 p2. p = p1 @ p2 \<and> p2 \<noteq> [] \<longrightarrow> matchBoundsAt (p2 @ boundsText a b c d @ q) = None"
  proof (intro allI impI)
    fix p1 p2 assume p: "p = p1 @ p2 \<and> p2 \<noteq> []"
    show "matchBoundsAt (p2 @ boundsText a b c d @ q) = None"
    proof (cases "matchBoundsAt (p2 @ boundsText a b c d @ q)")
      case None then show ?thesis .
    next
      case (Some found)
      obtain a' b' c' d' r where "found = ((a', b', c', d'), r)" by (cases found) auto
      with Some have "digitString a' \<and> digitString b' \<and> digitString c' \<and> digitString d'
          \<and> p2 @ boundsText a b c d @ q = boundsText a' b' c' d' @ r"
        by (simp add: matchBoundsAt_Some)
      then have "digitString a' \<and> digitString b' \<and> digitString c' \<and> digitString d'
          \<and> s = p1 @ boundsText a' b' c' d' @ r"
        using s p by simp
      with least have "length p \<le> length p1" by blast
      with p show ?thesis by simp
    qed
  qed
  with m show ?thesis unfolding s by (rule matchBounds_leftmost)
qed

lemma boundsText_after_prefix:
  assumes "CHR ''['' \<notin> set p" and "p @ t = p' @ boundsText a b c d @ q"
  shows "length p \<le> length p'"
proof (rule ccontr)
  assume "\<not> length p \<le> length p'"
  then have less: "length p' < length p" by simp
  from assms(2) have "(p @ t) ! length p' = (p' @ boundsText a b c d @ q) ! length p'" by simp
  with less have "p ! length p' = CHR ''[''" by (simp add: nth_append boundsText_def)
  with less have "CHR ''['' \<in> set p" by (metis nth_mem)
  with assms(1) show False by simp
qed

lemma nearestDouble_exact: "n < 2 ^ 53 \<Longrightarrow> nearestDouble n = Fin (int n)"
  by (simp add: nearestDouble_def)

lemma jsAdd_exact: "a + b < 2 ^ 53 \<Longrightarrow> jsAdd (Fin (int a)) (Fin (int b)) = Fin (int (a + b))"
  using nearestDouble_exact [of "a + b"] by (simp add: jsNumber_def nat_add_distrib)

lemma nearestDouble_cases: "nearestDouble n = PosInf \<or> (\<exists>m. nearestDouble n = Fin m)"
  by (simp add: nearestDouble_def Let_def)

lemma jsNumber_cases:
  "jsNumber i = PosInf \<or> jsNumber i = NegInf \<or> (\<exists>m. jsNumber i = Fin m)"
  using nearestDouble_cases [of "nat i"] nearestDouble_cases [of "nat (- i)"]
  by (auto simp: jsNumber_def)

lemma parseBounds_form:
  assumes "digitString a" "digitString b" "digitString c" "digitString d"
  shows "parseBounds (boundsText a b c d) =
           Some \<lparr>x1 = parseInt a, y1 = parseInt b, x2 = parseInt c, y2 = parseInt d,
                  centerX = mathRoundHalf (jsAdd (parseInt a) (parseInt c)),
                  centerY = mathRoundHalf (jsAdd (parseInt b) (parseInt d))\<rparr>"
  using assms by (simp add: parseBounds_def matchBounds_exact Let_def)

lemma parseBounds_exact:
  assumes d: "digitString a" "digitString b" "digitString c" "digitString d"
    and x: "decimalValue a + decimalValue c < 2 ^ 53"
    and y: "decimalValue b + decimalValue d < 2 ^ 53"
  shows "parseBounds (boundsText a b c d) =
           Some \<lparr>x1 = Fin (int (decimalValue a)), y1 = Fin (int (decimalValue b)),
                  x2 = Fin (int (decimalValue c)), y2 = Fin (int (decimalValue d)),
                  centerX = Fin (int ((decimalValue a + decimalValue c + 1) div 2)),
                  centerY = Fin (int ((decimalValue b + decimalValue d + 1) div 2))\<rparr>"
proof -
  from x have a: "parseInt a = Fin (int (decimalValue a))" and c: "parseInt c = Fin (int (decimalValue c))"
    unfolding parseInt_def by (simp_all add: nearestDouble_exact)
  from y have b: "parseInt b = Fin (int (decimalValue b))" and d': "parseInt d = Fin (int (decimalValue d))"
    unfolding parseInt_def by (simp_all add: nearestDouble_exact)
  have h: "(int m + int n + 1) div 2 = int ((m + n + 1) div 2)" for m n
    by (simp add: zdiv_int)
  show ?thesis
    unfolding parseBounds_form [OF d] a b c d' jsAdd_exact [OF x] jsAdd_exact [OF y]
    by (simp add: h)
qed

lemmas evalNumber = nearestDouble_def jsNumber_def

lemmas evalBounds = parseBounds_def matchBoundsAt_def digits1_def isDigit_def parseInt_def
  decimalValue_def digitValue_def Let_def evalNumber

lemma decimalValue_samples:
  "decimalValue ''0'' = 0" "decimalValue ''10'' = 10"
  "decimalValue ''156'' = 156" "decimalValue ''892'' = 892"
  "decimalValue ''924'' = 924" "decimalValue ''1050'' = 1050"
  "decimalValue ''1080'' = 1080" "decimalValue ''1920'' = 1920"
  "decimalValue ''9007199254740993'' = 9007199254740993"
  by (simp_all add: decimalValue_def digitValue_def)

lemma nearestDouble_tie:
  "nearestDouble 9007199254740993 = Fin 9007199254740992"
  "nearestDouble 9007199254740992 = Fin 9007199254740992"
proof -
  have b: "bitLength 9007199254740993 = 54" "bitLength 9007199254740992 = 54"
    by (simp_all add: bitLength.simps)
  show "nearestDouble 9007199254740993 = Fin 9007199254740992"
    by (simp add: nearestDouble_def b Let_def)
  show "nearestDouble 9007199254740992 = Fin 9007199254740992"
    by (simp add: nearestDouble_def b Let_def)
qed

text \<open>
  Claim C8, amended.  For every bounds string \<open>[x1,y1][x2,y2]\<close> of four non-empty digit
  strings with \<open>x1 + x2 < 2^53\<close> and \<open>y1 + y2 < 2^53\<close>, where the double arithmetic of the
  code is exact, \<open>parseBounds\<close> yields these four edges with \<open>centerX = round((x1+x2)/2)\<close>
  and \<open>centerY = round((y1+y2)/2)\<close>, halves rounded up.  For every string, \<open>parseBounds\<close>
  yields absence exactly when the string contains no text of that form anywhere; a string
  that contains one is parsed as its leftmost occurrence is parsed.
\<close>

theorem parseBounds_center:
  "(digitString a \<and> digitString b \<and> digitString c \<and> digitString d
      \<and> decimalValue a + decimalValue c < 2 ^ 53 \<and> decimalValue b + decimalValue d < 2 ^ 53 \<longrightarrow>
      parseBounds (boundsText a b c d) =
        Some \<lparr>x1 = Fin (int (decimalValue a)), y1 = Fin (int (decimalValue b)),
               x2 = Fin (int (decimalValue c)), y2 = Fin (int (decimalValue d)),
               centerX = Fin (int ((decimalValue a + decimalValue c + 1) div 2)),
               centerY = Fin (int ((decimalValue b + decimalValue d + 1) div 2))\<rparr>)
   \<and> ((parseBounds s = None) =
        (\<not> (\<exists>p a b c d q. digitString a \<and> digitString b \<and> digitString c \<and> digitString d
               \<and> s = p @ boundsText a b c d @ q)))
   \<and> (digitString a \<and> digitString b \<and> digitString c \<and> digitString d
      \<and> s = p @ boundsText a b c d @ q
      \<and> (\<forall>p' a' b' c' d' q'.
            digitString a' \<and> digitString b' \<and> digitString c' \<and> digitString d'
            \<and> s = p' @ boundsText a' b' c' d' @ q' \<longrightarrow> length p \<le> length p') \<longrightarrow>
      parseBounds s = parseBounds (boundsText a b c d))"
proof -
  have exact: "digitString a \<and> digitString b \<and> digitString c \<and> digitString d
      \<and> decimalValue a + decimalValue c < 2 ^ 53 \<and> decimalValue b + decimalValue d < 2 ^ 53 \<longrightarrow>
      parseBounds (boundsText a b c d) =
        Some \<lparr>x1 = Fin (int (decimalValue a)), y1 = Fin (int (decimalValue b)),
               x2 = Fin (int (decimalValue c)), y2 = Fin (int (decimalValue d)),
               centerX = Fin (int ((decimalValue a + decimalValue c + 1) div 2)),
               centerY = Fin (int ((decimalValue b + decimalValue d + 1) div 2))\<rparr>"
    using parseBounds_exact [of a b c d] by blast
  have "(parseBounds s = None) = (matchBounds s = None)"
    by (simp add: parseBounds_def Let_def split: option.splits prod.splits)
  also have "\<dots> = (\<forall>p t. s = p @ t \<longrightarrow> matchBoundsAt t = None)"
    by (rule matchBounds_None)
  also have "\<dots> = (\<not> (\<exists>p a b c d q. digitString a \<and> digitString b \<and> digitString c \<and> digitString d
               \<and> s = p @ boundsText a b c d @ q))"
  proof
    assume none: "\<forall>p t. s = p @ t \<longrightarrow> matchBoundsAt t = None"
    show "\<not> (\<exists>p a b c d q. digitString a \<and> digitString b \<and> digitString c \<and> digitString d
               \<and> s = p @ boundsText a b c d @ q)"
    proof
      assume "\<exists>p a b c d q. digitString a \<and> digitString b \<and> digitString c \<and> digitString d
               \<and> s = p @ boundsText a b c d @ q"
      then obtain p a b c d q where d: "digitString a" "digitString b" "digitString c" "digitString d"
        and s: "s = p @ boundsText a b c d @ q" by blast
      from d have "matchBoundsAt (boundsText a b c d @ q) = Some ((a, b, c, d), q)"
        by (simp add: matchBoundsAt_Some)
      with none s show False by fastforce
    qed
  next
    assume no: "\<not> (\<exists>p a b c d q. digitString a \<and> digitString b \<and> digitString c \<and> digitString d
               \<and> s = p @ boundsText a b c d @ q)"
    show "\<forall>p t. s = p @ t \<longrightarrow> matchBoundsAt t = None"
    proof (intro allI impI)
      fix p t assume s: "s = p @ t"
      show "matchBoundsAt t = None"
      proof (cases "matchBoundsAt t")
        case None then show ?thesis .
      next
        case (Some m)
        obtain a b c d r where "m = ((a, b, c, d), r)" by (cases m) auto
        with Some have "digitString a \<and> digitString b \<and> digitString c \<and> digitString d
            \<and> t = boundsText a b c d @ r"
          by (simp add: matchBoundsAt_Some)
        with s no show ?thesis by blast
      qed
    qed
  qed
  finally have absent: "(parseBounds s = None) =
        (\<not> (\<exists>p a b c d q. digitString a \<and> digitString b \<and> digitString c \<and> digitString d
               \<and> s = p @ boundsText a b c d @ q))" .
  have leftmost: "digitString a \<and> digitString b \<and> digitString c \<and> digitString d
      \<and> s = p @ boundsText a b c d @ q
      \<and> (\<forall>p' a' b' c' d' q'.
            digitString a' \<and> digitString b' \<and> digitString c' \<and> digitString d'
            \<and> s = p' @ boundsText a' b' c' d' @ q' \<longrightarrow> length p \<le> length p') \<longrightarrow>
      parseBounds s = parseBounds (boundsText a b c d)"
  proof
    assume h: "digitString a \<and> digitString b \<and> digitString c \<and> digitString d
      \<and> s = p @ boundsText a b c d @ q
      \<and> (\<forall>p' a' b' c' d' q'.
            digitString a' \<and> digitString b' \<and> digitString c' \<and> digitString d'
            \<and> s = p' @ boundsText a' b' c' d' @ q' \<longrightarrow> length p \<le> length p')"
    then have "matchBounds s = Some (a, b, c, d)"
      using matchBounds_occurrence [of a b c d s p q] by blast
    moreover from h have "matchBounds (boundsText a b c d) = Some (a, b, c, d)"
      by (simp add: matchBounds_exact)
    ultimately show "parseBounds s = parseBounds (boundsText a b c d)"
      by (simp add: parseBounds_def)
  qed
  from exact absent leftmost show ?thesis by blast
qed

theorem parseBounds_center_witness:
  "digitString ''156'' \<and> digitString ''892'' \<and> digitString ''924'' \<and> digitString ''1050''
   \<and> parseBounds ''[156,892][924,1050]'' =
        Some \<lparr>x1 = Fin 156, y1 = Fin 892, x2 = Fin 924, y2 = Fin 1050,
               centerX = Fin 540, centerY = Fin 971\<rparr>
   \<and> parseBounds ''bounds=[156,892][924,1050];'' = parseBounds ''[156,892][924,1050]''"
proof -
  have d: "digitString ''156''" "digitString ''892''" "digitString ''924''" "digitString ''1050''"
    by (simp_all add: digitString_def isDigit_def)
  have t: "boundsText ''156'' ''892'' ''924'' ''1050'' = ''[156,892][924,1050]''"
    by (simp add: boundsText_def)
  have s: "''bounds=[156,892][924,1050];'' = ''bounds='' @ boundsText ''156'' ''892'' ''924'' ''1050'' @ '';''"
    by (simp add: boundsText_def)
  have least: "\<forall>p' a' b' c' d' q'.
      digitString a' \<and> digitString b' \<and> digitString c' \<and> digitString d'
      \<and> ''bounds=[156,892][924,1050];'' = p' @ boundsText a' b' c' d' @ q'
      \<longrightarrow> length ''bounds='' \<le> length p'"
    using boundsText_after_prefix [of "''bounds=''" "''[156,892][924,1050];''"] by simp
  have x: "decimalValue ''156'' + decimalValue ''924'' < 2 ^ 53"
    and y: "decimalValue ''892'' + decimalValue ''1050'' < 2 ^ 53"
    by (simp_all add: decimalValue_samples)
  note inst = parseBounds_center [of "''156''" "''892''" "''924''" "''1050''"
      "''bounds=[156,892][924,1050];''" "''bounds=''" "'';''"]
  have r1: "parseBounds (boundsText ''156'' ''892'' ''924'' ''1050'') =
        Some \<lparr>x1 = Fin (int (decimalValue ''156'')), y1 = Fin (int (decimalValue ''892'')),
               x2 = Fin (int (decimalValue ''924'')), y2 = Fin (int (decimalValue ''1050'')),
               centerX = Fin (int ((decimalValue ''156'' + decimalValue ''924'' + 1) div 2)),
               centerY = Fin (int ((decimalValue ''892'' + decimalValue ''1050'' + 1) div 2))\<rparr>"
    by (rule mp [OF inst [THEN conjunct1]]) (intro conjI d x y)
  have r3: "parseBounds ''bounds=[156,892][924,1050];''
      = parseBounds (boundsText ''156'' ''892'' ''924'' ''1050'')"
    by (rule mp [OF inst [THEN conjunct2, THEN conjunct2]]) (intro conjI d s least)
  from r1 have "parseBounds ''[156,892][924,1050]'' =
        Some \<lparr>x1 = Fin 156, y1 = Fin 892, x2 = Fin 924, y2 = Fin 1050,
               centerX = Fin 540, centerY = Fin 971\<rparr>"
    unfolding t decimalValue_samples by simp
  with d r3 show ?thesis unfolding t by simp
qed

text \<open>
  The claim as written has every string that is not of the form \<open>[x1,y1][x2,y2]\<close> yield
  absence, and the centre be \<open>round((x1+x2)/2)\<close> for all edges.  The regular expression
  carries no anchors, so a string with text around the bounds is parsed all the same; and
  the edges are doubles, so the edge \<open>2^53 + 1\<close> is read as \<open>2^53\<close> and the centre is that
  of the rounded edges.
\<close>

theorem parseBounds_unanchored_counterexample:
  "\<not> isBoundsText ''bounds=[0,0][1080,1920]''
   \<and> parseBounds ''bounds=[0,0][1080,1920]'' =
        Some \<lparr>x1 = Fin 0, y1 = Fin 0, x2 = Fin 1080, y2 = Fin 1920,
               centerX = Fin 540, centerY = Fin 960\<rparr>
   \<and> isBoundsText ''[0,0][9007199254740993,10]''
   \<and> decimalValue ''9007199254740993'' = 9007199254740993
   \<and> (decimalValue ''0'' + decimalValue ''9007199254740993'' + 1) div 2 = 4503599627370497
   \<and> parseBounds ''[0,0][9007199254740993,10]'' =
        Some \<lparr>x1 = Fin 0, y1 = Fin 0, x2 = Fin 9007199254740992, y2 = Fin 10,
               centerX = Fin 4503599627370496, centerY = Fin 5\<rparr>"
proof -
  have c1: "\<not> isBoundsText ''bounds=[0,0][1080,1920]''"
    by (auto simp: isBoundsText_def boundsText_def)
  have c2: "parseBounds ''bounds=[0,0][1080,1920]'' =
        Some \<lparr>x1 = Fin 0, y1 = Fin 0, x2 = Fin 1080, y2 = Fin 1920,
               centerX = Fin 540, centerY = Fin 960\<rparr>"
    by (simp add: evalBounds)
  have t: "''[0,0][9007199254740993,10]'' = boundsText ''0'' ''0'' ''9007199254740993'' ''10''"
    by (simp add: boundsText_def)
  have d: "digitString ''0''" "digitString ''9007199254740993''" "digitString ''10''"
    by (simp_all add: digitString_def isDigit_def)
  have c3: "isBoundsText ''[0,0][9007199254740993,10]''"
    unfolding isBoundsText_def
    apply (rule exI [of _ "''0''"], rule exI [of _ "''0''"])
    apply (rule exI [of _ "''9007199254740993''"], rule exI [of _ "''10''"])
    apply (intro conjI d t)
    done
  have c4: "decimalValue ''9007199254740993'' = 9007199254740993"
    by (simp add: decimalValue_samples)
  have c5: "(decimalValue ''0'' + decimalValue ''9007199254740993'' + 1) div 2 = 4503599627370497"
    by (simp add: decimalValue_samples)
  have c6: "parseBounds ''[0,0][9007199254740993,10]'' =
        Some \<lparr>x1 = Fin 0, y1 = Fin 0, x2 = Fin 9007199254740992, y2 = Fin 10,
               centerX = Fin 4503599627370496, centerY = Fin 5\<rparr>"
  proof -
    have e: "parseInt ''0'' = Fin 0" "parseInt ''10'' = Fin 10"
        "parseInt ''9007199254740993'' = Fin 9007199254740992"
      by (simp_all add: parseInt_def decimalValue_samples nearestDouble_tie nearestDouble_exact)
    have s: "jsAdd (Fin 0) (Fin 9007199254740992) = Fin 9007199254740992"
        "jsAdd (Fin 0) (Fin 10) = Fin 10"
      by (simp_all add: jsNumber_def nearestDouble_tie nearestDouble_exact)
    show ?thesis
      unfolding t parseBounds_form [OF d(1) d(1) d(2) d(3)] e s by simp
  qed
  show ?thesis
    by (intro conjI c1 c2 c3 c4 c5 c6)
qed

lemma truncateText_length:
  "truncateText t = Some s \<Longrightarrow> length s \<le> 50 \<or> (length s = 53 \<and> suffix ''...'' s)"
  by (cases t) (auto simp: MAX_TEXT_LENGTH_def suffix_def split: if_splits)

lemma fold_children:
  assumes step: "\<And>cs acc e. Some cs \<in> set members \<Longrightarrow> e \<in> set (extractElements cs acc)
                   \<Longrightarrow> e \<in> set acc \<or> G cs e"
    and mem: "e \<in> set (fold (\<lambda>children acc. case children of None \<Rightarrow> acc | Some cs \<Rightarrow> extractElements cs acc)
                         members acc)"
  shows "e \<in> set acc \<or> (\<exists>cs. Some cs \<in> set members \<and> G cs e)"
  using step mem
proof (induction members arbitrary: acc)
  case Nil
  then show ?case by simp
next
  case (Cons m members)
  show ?case
  proof (cases m)
    case None
    with Cons.prems(2) have "e \<in> set (fold (\<lambda>children acc. case children of None \<Rightarrow> acc | Some cs \<Rightarrow> extractElements cs acc)
                         members acc)" by simp
    from Cons.IH [OF _ this] Cons.prems(1) show ?thesis by (metis list.set_intros(2))
  next
    case (Some cs)
    with Cons.prems(2) have "e \<in> set (fold (\<lambda>children acc. case children of None \<Rightarrow> acc | Some cs \<Rightarrow> extractElements cs acc)
                         members (extractElements cs acc))" by simp
    from Cons.IH [OF _ this] Cons.prems(1)
    have "e \<in> set (extractElements cs acc) \<or> (\<exists>cs. Some cs \<in> set members \<and> G cs e)"
      by (metis list.set_intros(2))
    then show ?thesis
    proof
      assume "e \<in> set (extractElements cs acc)"
      moreover have "Some cs \<in> set (m # members)" using Some by simp
      ultimately have "e \<in> set acc \<or> G cs e" by (rule Cons.prems(1) [rotated])
      then show ?thesis using \<open>Some cs \<in> set (m # members)\<close> by blast
    next
      assume "\<exists>cs. Some cs \<in> set members \<and> G cs e"
      then show ?thesis by auto
    qed
  qed
qed

lemma extractElements_emitted:
  "e \<in> set (extractElements nodes elements) \<Longrightarrow> e \<in> set elements \<or> emitted nodes e"
proof (induction nodes elements arbitrary: e rule: extractElements.induct)
  case (1 elements)
  then show ?case by simp
next
  case (2 nodes elements)
  then show ?case by (auto simp: emitted_def)
next
  case (3 attrWrapper members nodes elements)
  define attrs where "attrs = (case attrWrapper of None \<Rightarrow> Map.empty | Some a \<Rightarrow> a)"
  define elements1 where "elements1 =
      (case attrs ''bounds'' of None \<Rightarrow> elements
       | Some boundsStr \<Rightarrow>
           if boundsStr \<noteq> [] \<and> isVisible attrs
           then case parseBounds boundsStr of None \<Rightarrow> elements
                | Some b \<Rightarrow>
                    if hasIdentifiableContent attrs \<or> attrs ''clickable'' = Some ''true''
                    then elements @
                         [\<lparr>resourceId = if truthy (attrs ''resource-id'') then attrs ''resource-id'' else None,
                             elText = truncateText (attrs ''text''),
                             contentDesc = truncateText (attrs ''content-desc''),
                             className = orElse (attrs ''class'') ''unknown'',
                             bounds = b,
                             clickable = attrs ''clickable'' = Some ''true'',
                             enabled = attrs ''enabled'' \<noteq> Some ''false''\<rparr>]
                    else elements
           else elements)"
  define elements2 where "elements2 =
      fold (\<lambda>children acc. case children of None \<Rightarrow> acc | Some cs \<Rightarrow> extractElements cs acc)
        members elements1"
  note ih1 = "3.IH"(1) [OF attrs_def elements1_def]
  note ih2 = "3.IH"(2) [OF attrs_def elements1_def elements2_def]
  have attrs_in: "attrs \<in> set (nodeAttrs (XmlObject attrWrapper members # nodes))"
    by (simp add: attrs_def)
  have child_in: "set (nodeAttrs cs) \<subseteq> set (nodeAttrs (XmlObject attrWrapper members # nodes))"
    if "Some cs \<in> set members" for cs
    using that by (force simp: image_iff)
  have rest_in: "set (nodeAttrs nodes) \<subseteq> set (nodeAttrs (XmlObject attrWrapper members # nodes))"
    by auto
  have own: "e \<in> set elements \<or> emitted (XmlObject attrWrapper members # nodes) e"
    if "e \<in> set elements1"
  proof (cases "e \<in> set elements")
    case True
    then show ?thesis by simp
  next
    case False
    with that obtain boundsStr b where bs: "attrs ''bounds'' = Some boundsStr" "boundsStr \<noteq> []"
      and vis: "isVisible attrs" and pb: "parseBounds boundsStr = Some b"
      and e: "bounds e = b" "elText e = truncateText (attrs ''text'')"
             "contentDesc e = truncateText (attrs ''content-desc'')"
      by (auto simp: elements1_def split: option.splits if_splits)
    from bs have oe: "orElse (attrs ''bounds'') [] = boundsStr" by simp
    from vis pb have "attrs ''displayed'' \<noteq> Some ''false''"
      and "\<not> atMostZero (jsSub (x2 b) (x1 b))" and "\<not> atMostZero (jsSub (y2 b) (y1 b))"
      by (auto simp: isVisible_def oe split: if_splits)
    with e pb oe attrs_in show ?thesis
      unfolding emitted_def emittedFor_def by blast
  qed
  have "extractElements (XmlObject attrWrapper members # nodes) elements
          = extractElements nodes elements2"
    unfolding elements2_def elements1_def attrs_def
    by (simp only: extractElements.simps Let_def)
  with "3.prems" have "e \<in> set (extractElements nodes elements2)"
    by simp
  then have "e \<in> set elements2 \<or> emitted nodes e" by (rule ih2)
  then show ?case
  proof
    assume "e \<in> set elements2"
    then have "e \<in> set elements1 \<or> (\<exists>cs. Some cs \<in> set members \<and> emitted cs e)"
      unfolding elements2_def
      by (rule fold_children [rotated]) (rule ih1, auto)
    then show ?case
    proof
      assume "e \<in> set elements1"
      then show ?case by (rule own)
    next
      assume "\<exists>cs. Some cs \<in> set members \<and> emitted cs e"
      then obtain cs where "Some cs \<in> set members" "emitted cs e" by blast
      with child_in [of cs] show ?case unfolding emitted_def by blast
    qed
  next
    assume "emitted nodes e"
    with rest_in show ?case unfolding emitted_def by blast
  qed
qed

lemma extent_positive:
  assumes lo: "lo = PosInf \<or> (\<exists>m. lo = Fin m)" and hi: "hi = PosInf \<or> (\<exists>m. hi = Fin m)"
    and pos: "\<not> atMostZero (jsSub hi lo)"
  shows "isPositive (jsSub hi lo) \<or> (lo = PosInf \<and> hi = PosInf)"
proof -
  have fin: "isPositive (jsNumber i)" if "\<not> atMostZero (jsNumber i)" for i
    using that jsNumber_cases [of i] by auto
  from lo hi pos show ?thesis
    by (auto simp: jsSub_def intro: fin)
qed

lemma parseBounds_edges:
  assumes "parseBounds s = Some b"
  shows "(x1 b = PosInf \<or> (\<exists>m. x1 b = Fin m)) \<and> (y1 b = PosInf \<or> (\<exists>m. y1 b = Fin m))
       \<and> (x2 b = PosInf \<or> (\<exists>m. x2 b = Fin m)) \<and> (y2 b = PosInf \<or> (\<exists>m. y2 b = Fin m))"
proof -
  from assms obtain g1 g2 g3 g4 where "x1 b = parseInt g1" "y1 b = parseInt g2"
      "x2 b = parseInt g3" "y2 b = parseInt g4"
    by (auto simp: parseBounds_def Let_def split: option.splits)
  then show ?thesis
    unfolding parseInt_def using nearestDouble_cases by simp
qed

lemma trim_sample: "trim ''  Welcome back to the demonstration application, please sign in  ''
   = ''Welcome back to the demonstration application, please sign in''"
  by (simp add: trim_def isSpace_def)

lemma sample_elements:
  "parseAndroidXml (\<lambda>xml. Inr sampleHierarchy) ''<hierarchy/>'' =
     [\<lparr>resourceId = None,
       elText = Some ''Welcome back to the demonstration application, ple...'',
       contentDesc = None, className = ''android.widget.TextView'',
       bounds = \<lparr>x1 = Fin 0, y1 = Fin 0, x2 = Fin 1080, y2 = Fin 200,
                 centerX = Fin 540, centerY = Fin 100\<rparr>,
       clickable = False, enabled = True\<rparr>,
      \<lparr>resourceId = Some ''com.example:id/login'', elText = None,
       contentDesc = None, className = ''unknown'',
       bounds = \<lparr>x1 = Fin 40, y1 = Fin 600, x2 = Fin 1040, y2 = Fin 720,
                 centerX = Fin 540, centerY = Fin 660\<rparr>,
       clickable = True, enabled = True\<rparr>]"
  by (simp add: parseAndroidXml_def sampleHierarchy_def isVisible_def hasIdentifiableContent_def
      evalBounds jsSub_def trim_sample MAX_TEXT_LENGTH_def)

lemma decimalValue_zeros:
  "decimalValue (ds @ replicate k CHR ''0'') = decimalValue ds * 10 ^ k"
proof (induction k)
  case 0
  then show ?case by simp
next
  case (Suc k)
  have "replicate (Suc k) CHR ''0'' = replicate k CHR ''0'' @ ''0''"
    by (simp add: replicate_append_same)
  then have "decimalValue (ds @ replicate (Suc k) CHR ''0'')
      = 10 * decimalValue (ds @ replicate k CHR ''0'')"
    by (simp add: decimalValue_def digitValue_def)
  with Suc show ?case by simp
qed

lemma parseInt_hugeEdge: "parseInt hugeEdge = PosInf"
proof -
  have "decimalValue hugeEdge = decimalValue (''1'' @ replicate 309 CHR ''0'')"
    by (simp add: hugeEdge_def)
  also have "\<dots> = decimalValue ''1'' * 10 ^ 309"
    by (rule decimalValue_zeros)
  also have "decimalValue ''1'' = 1"
    by (simp add: decimalValue_def digitValue_def)
  finally have "decimalValue hugeEdge = 10 ^ 309" by simp
  then show ?thesis
    by (simp add: parseInt_def nearestDouble_def)
qed

lemma boundsText_not_empty: "boundsText a b c d \<noteq> []"
  by (simp add: boundsText_def)

lemma overflow_bounds:
  "parseBounds (boundsText hugeEdge ''0'' hugeEdge ''10'') =
     Some \<lparr>x1 = PosInf, y1 = Fin 0, x2 = PosInf, y2 = Fin 10, centerX = PosInf, centerY = Fin 5\<rparr>"
proof -
  have d: "digitString hugeEdge" "digitString ''0''" "digitString ''10''"
    by (simp_all add: digitString_def isDigit_def hugeEdge_def list_all_iff)
  show ?thesis
    unfolding parseBounds_form [OF d(1) d(2) d(1) d(3)] parseInt_hugeEdge
    by (simp add: parseInt_def decimalValue_samples evalNumber)
qed

text \<open>
  Claim C6, amended.  Whatever the XML parser returns for the raw hierarchy, every element
  the pruner emits has strictly positive width and height (\<open>x2 - x1 > 0\<close> and
  \<open>y2 - y1 > 0\<close>) unless both edges of the pair are \<open>Infinity\<close>; is emitted for a node of
  the hierarchy whose \<open>displayed\<close> attribute is not \<open>"false"\<close>; and carries in \<open>text\<close> and
  in \<open>contentDesc\<close> no string longer than 50 characters unless the string ends with \<open>...\<close>.
\<close>

theorem parseAndroidXml_elements:
  "\<forall>e \<in> set (parseAndroidXml parse xml).
      (isPositive (jsSub (x2 (bounds e)) (x1 (bounds e)))
         \<or> (x1 (bounds e) = PosInf \<and> x2 (bounds e) = PosInf))
    \<and> (isPositive (jsSub (y2 (bounds e)) (y1 (bounds e)))
         \<or> (y1 (bounds e) = PosInf \<and> y2 (bounds e) = PosInf))
    \<and> (\<exists>parsed attrs. parse xml = Inr parsed \<and> attrs \<in> set (nodeAttrs parsed)
           \<and> attrs ''displayed'' \<noteq> Some ''false'' \<and> emittedFor attrs e)
    \<and> (\<forall>t. elText e = Some t \<longrightarrow> length t \<le> 50 \<or> suffix ''...'' t)
    \<and> (\<forall>t. contentDesc e = Some t \<longrightarrow> length t \<le> 50 \<or> suffix ''...'' t)"
proof
  fix e assume e: "e \<in> set (parseAndroidXml parse xml)"
  then obtain parsed where p: "parse xml = Inr parsed" and "e \<in> set (extractElements parsed [])"
    by (cases "parse xml") (auto simp: parseAndroidXml_def)
  with extractElements_emitted [of e parsed "[]"] have em: "emitted parsed e" by simp
  then obtain attrs where a: "attrs \<in> set (nodeAttrs parsed)" "emittedFor attrs e"
    and w: "\<not> atMostZero (jsSub (x2 (bounds e)) (x1 (bounds e)))"
    and h: "\<not> atMostZero (jsSub (y2 (bounds e)) (y1 (bounds e)))"
    unfolding emitted_def by blast
  from a(2) have t: "elText e = truncateText (attrs ''text'')"
    "contentDesc e = truncateText (attrs ''content-desc'')"
    and d: "attrs ''displayed'' \<noteq> Some ''false''"
    and pb: "parseBounds (orElse (attrs ''bounds'') '''') = Some (bounds e)"
    by (simp_all add: emittedFor_def)
  note edges = parseBounds_edges [OF pb]
  have "isPositive (jsSub (x2 (bounds e)) (x1 (bounds e)))
         \<or> (x1 (bounds e) = PosInf \<and> x2 (bounds e) = PosInf)"
    using edges w by (intro extent_positive) simp_all
  moreover have "isPositive (jsSub (y2 (bounds e)) (y1 (bounds e)))
         \<or> (y1 (bounds e) = PosInf \<and> y2 (bounds e) = PosInf)"
    using edges h by (intro extent_positive) simp_all
  moreover have "\<forall>t. elText e = Some t \<longrightarrow> length t \<le> 50 \<or> suffix ''...'' t"
    using truncateText_length [of "attrs ''text''"] t by auto
  moreover have "\<forall>t. contentDesc e = Some t \<longrightarrow> length t \<le> 50 \<or> suffix ''...'' t"
    using truncateText_length [of "attrs ''content-desc''"] t by auto
  moreover have "\<exists>parsed attrs. parse xml = Inr parsed \<and> attrs \<in> set (nodeAttrs parsed)
           \<and> attrs ''displayed'' \<noteq> Some ''false'' \<and> emittedFor attrs e"
    using p a d by blast
  ultimately show "(isPositive (jsSub (x2 (bounds e)) (x1 (bounds e)))
         \<or> (x1 (bounds e) = PosInf \<and> x2 (bounds e) = PosInf))
    \<and> (isPositive (jsSub (y2 (bounds e)) (y1 (bounds e)))
         \<or> (y1 (bounds e) = PosInf \<and> y2 (bounds e) = PosInf))
    \<and> (\<exists>parsed attrs. parse xml = Inr parsed \<and> attrs \<in> set (nodeAttrs parsed)
           \<and> attrs ''displayed'' \<noteq> Some ''false'' \<and> emittedFor attrs e)
    \<and> (\<forall>t. elText e = Some t \<longrightarrow> length t \<le> 50 \<or> suffix ''...'' t)
    \<and> (\<forall>t. contentDesc e = Some t \<longrightarrow> length t \<le> 50 \<or> suffix ''...'' t)"
    by blast
qed

theorem parseAndroidXml_elements_witness:
  "set (parseAndroidXml (\<lambda>xml. Inr sampleHierarchy) ''<hierarchy/>'') \<noteq> {}
   \<and> list_all (\<lambda>e. isPositive (jsSub (x2 (bounds e)) (x1 (bounds e)))
         \<and> isPositive (jsSub (y2 (bounds e)) (y1 (bounds e)))
         \<and> (case elText e of None \<Rightarrow> True | Some t \<Rightarrow> length t \<le> 50 \<or> suffix ''...'' t))
       (parseAndroidXml (\<lambda>xml. Inr sampleHierarchy) ''<hierarchy/>'')"
proof -
  have ne: "set (parseAndroidXml (\<lambda>xml. Inr sampleHierarchy) ''<hierarchy/>'') \<noteq> {}"
    by (simp add: sample_elements)
  have fin: "\<forall>e \<in> set (parseAndroidXml (\<lambda>xml. Inr sampleHierarchy) ''<hierarchy/>'').
      x1 (bounds e) \<noteq> PosInf \<and> y1 (bounds e) \<noteq> PosInf"
    by (simp add: sample_elements)
  from parseAndroidXml_elements [of "\<lambda>xml. Inr sampleHierarchy" "''<hierarchy/>''"] fin
  have "\<forall>e \<in> set (parseAndroidXml (\<lambda>xml. Inr sampleHierarchy) ''<hierarchy/>'').
      isPositive (jsSub (x2 (bounds e)) (x1 (bounds e)))
         \<and> isPositive (jsSub (y2 (bounds e)) (y1 (bounds e)))
         \<and> (case elText e of None \<Rightarrow> True | Some t \<Rightarrow> length t \<le> 50 \<or> suffix ''...'' t)"
    by (auto split: option.splits)
  with ne show ?thesis by (simp add: list_all_iff)
qed

text \<open>
  The claim as written has every emitted element of strictly positive width and height.
  An edge of 310 digits is read by \<open>parseInt\<close> as \<open>Infinity\<close>; with both horizontal edges
  so, the width \<open>x2 - x1\<close> is \<open>NaN\<close>, the test \<open>x2 - x1 <= 0\<close> of \<open>isVisible\<close> is false, and
  the element is emitted although its width is not positive.
\<close>

theorem parseAndroidXml_overflow_counterexample:
  "parseAndroidXml (\<lambda>xml. Inr overflowHierarchy) ''<hierarchy/>'' =
     [\<lparr>resourceId = None, elText = Some ''OK'', contentDesc = None, className = ''unknown'',
       bounds = \<lparr>x1 = PosInf, y1 = Fin 0, x2 = PosInf, y2 = Fin 10,
                 centerX = PosInf, centerY = Fin 5\<rparr>,
       clickable = False, enabled = True\<rparr>]
   \<and> jsSub PosInf PosInf = NaN
   \<and> \<not> isPositive (jsSub PosInf PosInf)"
  by (simp add: parseAndroidXml_def overflowHierarchy_def isVisible_def hasIdentifiableContent_def
      overflow_bounds boundsText_not_empty jsSub_def evalNumber trim_def isSpace_def
      MAX_TEXT_LENGTH_def)

section \<open>Properties of the response parser\<close>

lemma firstSome_Some: "firstSome f xs = Some y \<Longrightarrow> \<exists>x \<in> set xs. f x = Some y"
  by (induction xs) (auto split: option.splits)

lemma firstSome_None: "firstSome f xs = None \<longleftrightarrow> (\<forall>x \<in> set xs. f x = None)"
  by (induction xs) (auto split: option.splits)

lemma findFence_Some: "findFence r = Some i \<Longrightarrow> \<exists>post. r = take i r @ fence @ post"
proof (induction r arbitrary: i)
  case Nil
  then show ?case by simp
next
  case (Cons c cs)
  show ?case
  proof (cases "prefix fence (c # cs)")
    case True
    with Cons.prems have "i = 0" by simp
    with True show ?thesis by (auto simp: prefix_def)
  next
    case False
    with Cons.prems obtain j where j: "findFence cs = Some j" "i = Suc j" by auto
    from Cons.IH [OF j(1)] obtain post where "cs = take j cs @ fence @ post" by blast
    then have "c # cs = take (Suc j) (c # cs) @ fence @ post" by simp
    with j show ?thesis by blast
  qed
qed

lemma findFence_None: "findFence r = None \<longleftrightarrow> \<not> (\<exists>a b. r = a @ fence @ b)"
proof (induction r)
  case Nil
  then show ?case by (simp add: fence_def)
next
  case (Cons c cs)
  have "(\<exists>a b. c # cs = a @ fence @ b) \<longleftrightarrow> prefix fence (c # cs) \<or> (\<exists>a b. cs = a @ fence @ b)"
  proof
    assume "\<exists>a b. c # cs = a @ fence @ b"
    then obtain a b where ab: "c # cs = a @ fence @ b" by blast
    show "prefix fence (c # cs) \<or> (\<exists>a b. cs = a @ fence @ b)"
    proof (cases a)
      case Nil
      with ab show ?thesis by (auto simp: prefix_def)
    next
      case (Cons x a')
      with ab have "cs = a' @ fence @ b" by simp
      then show ?thesis by blast
    qed
  next
    assume "prefix fence (c # cs) \<or> (\<exists>a b. cs = a @ fence @ b)"
    then show "\<exists>a b. c # cs = a @ fence @ b"
    proof
      assume "prefix fence (c # cs)"
      then obtain b where "c # cs = fence @ b" by (auto simp: prefix_def)
      then have "c # cs = [] @ fence @ b" by simp
      then show ?thesis by blast
    next
      assume "\<exists>a b. cs = a @ fence @ b"
      then obtain a b where "cs = a @ fence @ b" by blast
      then have "c # cs = (c # a) @ fence @ b" by simp
      then show ?thesis by blast
    qed
  qed
  with Cons.IH show ?case by auto
qed

lemma matchFenceAt_Some:
  assumes "matchFenceAt s = Some g"
  shows "\<exists>tag ws post. s = fence @ tag @ ws @ g @ fence @ post
           \<and> (tag = [] \<or> tag = ''json'') \<and> (\<forall>c \<in> set ws. isSpace c)"
proof -
  from assms have pf: "prefix fence s" by (auto simp: matchFenceAt_def split: if_splits)
  then obtain r0 where s: "s = fence @ r0" by (auto simp: prefix_def)
  then have r0: "drop 3 s = r0" by (simp add: fence_def)
  from assms pf have "firstSome
              (\<lambda>r1. firstSome (\<lambda>k. lazyUntilFence (drop k r1))
                      (rev [0 ..< Suc (length (takeWhile isSpace r1))]))
              ((if prefix ''json'' r0 then [drop 4 r0] else []) @ [r0]) = Some g"
    unfolding matchFenceAt_def Let_def r0 by (simp only: if_True)
  from firstSome_Some [OF this] obtain r1
    where r1: "r1 \<in> set ((if prefix ''json'' r0 then [drop 4 r0] else []) @ [r0])"
      and "firstSome (\<lambda>k. lazyUntilFence (drop k r1))
                      (rev [0 ..< Suc (length (takeWhile isSpace r1))]) = Some g"
    by blast
  from firstSome_Some [OF this(2)] obtain k
    where k: "k \<in> set (rev [0 ..< Suc (length (takeWhile isSpace r1))])"
      and lz: "lazyUntilFence (drop k r1) = Some g"
    by blast
  from r1 obtain tag where tag: "r0 = tag @ r1" "tag = [] \<or> tag = ''json''"
    by (auto simp: prefix_def split: if_splits)
  from k have kle: "k \<le> length (takeWhile isSpace r1)" by auto
  have ws: "\<forall>c \<in> set (take k r1). isSpace c"
  proof
    fix c assume "c \<in> set (take k r1)"
    with kle have "c \<in> set (takeWhile isSpace r1)"
      by (metis append_take_drop_id in_set_takeD take_all takeWhile_eq_take take_take min.absorb1 length_takeWhile_le)
    then show "isSpace c" by (auto dest: set_takeWhileD)
  qed
  from lz obtain i where "findFence (drop k r1) = Some i" "g = take i (drop k r1)"
    by (auto simp: lazyUntilFence_def)
  with findFence_Some obtain post where "drop k r1 = g @ fence @ post" by metis
  then have "r1 = take k r1 @ g @ fence @ post" by (metis append_take_drop_id)
  with s tag ws show ?thesis by (metis append_assoc)
qed

lemma matchFenceAt_prefix:
  "matchFenceAt (fence @ r0) =
     firstSome
       (\<lambda>r1. firstSome (\<lambda>k. lazyUntilFence (drop k r1))
               (rev [0 ..< Suc (length (takeWhile isSpace r1))]))
       ((if prefix ''json'' r0 then [drop 4 r0] else []) @ [r0])"
proof -
  have e1: "prefix fence (fence @ r0)" by simp
  have e2: "drop 3 (fence @ r0) = r0" by (simp add: fence_def)
  show ?thesis unfolding matchFenceAt_def Let_def e2 using e1 by (rule if_P)
qed

lemma matchFenceAt_complete: "matchFenceAt (fence @ mid @ fence @ post) \<noteq> None"
proof -
  let ?r0 = "mid @ fence @ post"
  have "findFence ?r0 \<noteq> None" using findFence_None [of ?r0] by blast
  then have "lazyUntilFence (drop 0 ?r0) \<noteq> None" by (simp add: lazyUntilFence_def)
  moreover have "0 \<in> set (rev [0 ..< Suc (length (takeWhile isSpace ?r0))])" by simp
  ultimately have "firstSome (\<lambda>k. lazyUntilFence (drop k ?r0))
                      (rev [0 ..< Suc (length (takeWhile isSpace ?r0))]) \<noteq> None"
    unfolding firstSome_None by (intro notI) (drule bspec, assumption, simp)
  moreover have "?r0 \<in> set ((if prefix ''json'' ?r0 then [drop 4 ?r0] else []) @ [?r0])" by simp
  ultimately have "firstSome
              (\<lambda>r1. firstSome (\<lambda>k. lazyUntilFence (drop k r1))
                      (rev [0 ..< Suc (length (takeWhile isSpace r1))]))
              ((if prefix ''json'' ?r0 then [drop 4 ?r0] else []) @ [?r0]) \<noteq> None"
    unfolding firstSome_None by blast
  then show ?thesis unfolding matchFenceAt_prefix .
qed

lemma matchFence_Some:
  "matchFence t = Some g \<Longrightarrow>
     \<exists>pre tag ws post. t = pre @ fence @ tag @ ws @ g @ fence @ post
        \<and> (tag = [] \<or> tag = ''json'') \<and> (\<forall>c \<in> set ws. isSpace c)"
proof (induction t)
  case Nil
  then show ?case by (simp add: matchFenceAt_def fence_def)
next
  case (Cons c cs)
  show ?case
  proof (cases "matchFenceAt (c # cs)")
    case None
    with Cons.prems have "matchFence cs = Some g" by simp
    from Cons.IH [OF this] obtain pre tag ws post
      where "cs = pre @ fence @ tag @ ws @ g @ fence @ post"
        "tag = [] \<or> tag = ''json''" "\<forall>c \<in> set ws. isSpace c" by blast
    then have "c # cs = (c # pre) @ fence @ tag @ ws @ g @ fence @ post" by simp
    with \<open>tag = [] \<or> tag = ''json''\<close> \<open>\<forall>c \<in> set ws. isSpace c\<close> show ?thesis by blast
  next
    case (Some g')
    with Cons.prems have "matchFenceAt (c # cs) = Some g" by simp
    from matchFenceAt_Some [OF this] obtain tag ws post
      where "c # cs = [] @ fence @ tag @ ws @ g @ fence @ post"
        "tag = [] \<or> tag = ''json''" "\<forall>c \<in> set ws. isSpace c" by auto
    then show ?thesis by blast
  qed
qed

lemma matchFence_None_suffix:
  "matchFence t = None \<Longrightarrow> t = pre @ s \<Longrightarrow> matchFenceAt s = None"
proof (induction t arbitrary: pre)
  case Nil
  then show ?case by simp
next
  case (Cons c cs)
  from Cons.prems(1) have a: "matchFenceAt (c # cs) = None" and b: "matchFence cs = None"
    by (auto split: option.splits)
  show ?case
  proof (cases pre)
    case Nil
    with Cons.prems(2) a show ?thesis by simp
  next
    case (Cons x pre')
    with Cons.prems(2) have "cs = pre' @ s" by simp
    with Cons.IH [OF b] show ?thesis by blast
  qed
qed

lemma matchFence_None: "matchFence response = None \<longleftrightarrow> \<not> hasFencedBlock response"
proof
  assume none: "matchFence response = None"
  show "\<not> hasFencedBlock response"
  proof
    assume "hasFencedBlock response"
    then obtain pre mid post where "response = pre @ fence @ mid @ fence @ post"
      unfolding hasFencedBlock_def by blast
    from matchFence_None_suffix [OF none this] matchFenceAt_complete show False by blast
  qed
next
  assume no: "\<not> hasFencedBlock response"
  show "matchFence response = None"
  proof (cases "matchFence response")
    case None
    then show ?thesis .
  next
    case (Some g)
    from matchFence_Some [OF this] obtain pre tag ws post
      where "response = pre @ fence @ (tag @ ws @ g) @ fence @ post" by auto
    with no show ?thesis unfolding hasFencedBlock_def by blast
  qed
qed

lemma matchObjectAt_Some:
  assumes "matchObjectAt s = Some m"
  shows "\<exists>body post. m = ''{'' @ body @ ''}'' \<and> s = m @ post \<and> CHR ''}'' \<notin> set post"
proof -
  from assms obtain r where s: "s = CHR ''{'' # r" and br: "CHR ''}'' \<in> set r"
    and m: "m = CHR ''{'' # rev (dropWhile (\<lambda>x. x \<noteq> CHR ''}'') (rev r))"
    by (auto simp: matchObjectAt_def split: list.splits if_splits)
  let ?post = "rev (takeWhile (\<lambda>x. x \<noteq> CHR ''}'') (rev r))"
  let ?keep = "rev (dropWhile (\<lambda>x. x \<noteq> CHR ''}'') (rev r))"
  have r: "r = ?keep @ ?post"
    by (metis rev_append rev_rev_ident takeWhile_dropWhile_id)
  have "dropWhile (\<lambda>x. x \<noteq> CHR ''}'') (rev r) \<noteq> []" using br by (simp add: dropWhile_eq_Nil_conv)
  moreover have "hd (dropWhile (\<lambda>x. x \<noteq> CHR ''}'') (rev r)) = CHR ''}''"
    using calculation hd_dropWhile [of "\<lambda>x. x \<noteq> CHR ''}''" "rev r"] by blast
  ultimately obtain body' where "dropWhile (\<lambda>x. x \<noteq> CHR ''}'') (rev r) = CHR ''}'' # body'"
    by (cases "dropWhile (\<lambda>x. x \<noteq> CHR ''}'') (rev r)") auto
  then have keep: "?keep = rev body' @ ''}''" by simp
  have post: "CHR ''}'' \<notin> set ?post" by (auto dest: set_takeWhileD)
  from m keep have "m = ''{'' @ rev body' @ ''}''" by simp
  moreover from s r m have "s = m @ ?post" by (metis append_Cons)
  ultimately show ?thesis using post by blast
qed

lemma matchObject_no_close: "CHR ''}'' \<notin> set s \<Longrightarrow> matchObject s = None"
  by (induction s) (auto simp: matchObjectAt_def split: list.splits)

lemma matchObject_Some:
  "matchObject t = Some m \<Longrightarrow>
     \<exists>pre body post. t = pre @ m @ post \<and> m = ''{'' @ body @ ''}''
        \<and> CHR ''{'' \<notin> set pre \<and> CHR ''}'' \<notin> set post"
proof (induction t)
  case Nil
  then show ?case by (simp add: matchObjectAt_def)
next
  case (Cons c cs)
  show ?case
  proof (cases "matchObjectAt (c # cs)")
    case None
    with Cons.prems have rec: "matchObject cs = Some m" by simp
    have "c \<noteq> CHR ''{''"
    proof
      assume "c = CHR ''{''"
      with None have "CHR ''}'' \<notin> set cs" by (auto simp: matchObjectAt_def split: if_splits)
      with rec matchObject_no_close show False by fastforce
    qed
    moreover from Cons.IH [OF rec] obtain pre body post
      where "cs = pre @ m @ post" "m = ''{'' @ body @ ''}''" "CHR ''{'' \<notin> set pre" "CHR ''}'' \<notin> set post"
      by blast
    ultimately have "c # cs = (c # pre) @ m @ post \<and> m = ''{'' @ body @ ''}''
        \<and> CHR ''{'' \<notin> set (c # pre) \<and> CHR ''}'' \<notin> set post" by simp
    then show ?thesis by blast
  next
    case (Some m')
    with Cons.prems have "matchObjectAt (c # cs) = Some m" by simp
    from matchObjectAt_Some [OF this] obtain body post
      where "m = ''{'' @ body @ ''}''" "c # cs = [] @ m @ post" "CHR ''}'' \<notin> set post" by auto
    then show ?thesis by (metis empty_iff empty_set)
  qed
qed

lemma matchObject_None: "matchObject response = None \<longleftrightarrow> \<not> hasBraces response"
proof
  assume none: "matchObject response = None"
  show "\<not> hasBraces response"
  proof
    assume "hasBraces response"
    then obtain pre mid post where "response = pre @ ''{'' @ mid @ ''}'' @ post"
      unfolding hasBraces_def by blast
    with none show False
    proof (induction pre arbitrary: response)
      case Nil
      then have "matchObjectAt response \<noteq> None" by (simp add: matchObjectAt_def)
      with Nil show ?case by (cases response) (auto split: option.splits)
    next
      case (Cons x pre)
      then obtain cs where "response = x # cs" "cs = pre @ ''{'' @ mid @ ''}'' @ post" by simp
      with Cons.prems(1) have "matchObject cs = None" by (auto split: option.splits)
      with Cons.IH \<open>cs = pre @ ''{'' @ mid @ ''}'' @ post\<close> show ?case by blast
    qed
  qed
next
  assume no: "\<not> hasBraces response"
  show "matchObject response = None"
  proof (cases "matchObject response")
    case None
    then show ?thesis .
  next
    case (Some m)
    from matchObject_Some [OF this] obtain pre body post
      where "response = pre @ ''{'' @ body @ ''}'' @ post" by auto
    with no show ?thesis unfolding hasBraces_def by blast
  qed
qed

lemma findFence_position:
  "findFence r = Some i \<Longrightarrow> \<exists>pre post. r = pre @ fence @ post \<and> length pre = i"
proof (induction r arbitrary: i)
  case Nil
  then show ?case by simp
next
  case (Cons c cs)
  show ?case
  proof (cases "prefix fence (c # cs)")
    case True
    with Cons.prems have "i = 0" by simp
    with True show ?thesis by (auto simp: prefix_def)
  next
    case False
    with Cons.prems obtain j where j: "findFence cs = Some j" "i = Suc j" by auto
    from Cons.IH [OF j(1)] obtain pre post where "cs = pre @ fence @ post" "length pre = j" by blast
    then have "c # cs = (c # pre) @ fence @ post \<and> length (c # pre) = i" using j by simp
    then show ?thesis by blast
  qed
qed

lemma findFence_first: "findFence r = Some i \<Longrightarrow> \<forall>j<i. \<not> prefix fence (drop j r)"
proof (induction r arbitrary: i)
  case Nil
  then show ?case by simp
next
  case (Cons c cs)
  show ?case
  proof (cases "prefix fence (c # cs)")
    case True
    with Cons.prems have "i = 0" by simp
    then show ?thesis by simp
  next
    case False
    with Cons.prems obtain k where k: "findFence cs = Some k" "i = Suc k" by auto
    show ?thesis
    proof (intro allI impI)
      fix j assume ji: "j < i"
      show "\<not> prefix fence (drop j (c # cs))"
      proof (cases j)
        case 0
        with False show ?thesis by simp
      next
        case (Suc j')
        with ji k have "j' < k" by simp
        with Cons.IH [OF k(1)] Suc show ?thesis by simp
      qed
    qed
  qed
qed

lemma isSpace_not_tick: "isSpace c \<Longrightarrow> c \<noteq> CHR ''`''"
  by (auto simp: isSpace_def)

lemma findFence_skip:
  "\<forall>c \<in> set ws. c \<noteq> CHR ''`'' \<Longrightarrow> (findFence (ws @ t) = None) = (findFence t = None)"
proof (induction ws)
  case Nil
  then show ?case by simp
next
  case (Cons c ws)
  then have "\<not> prefix fence ((c # ws) @ t)" by (auto simp: fence_def)
  with Cons show ?case by simp
qed

lemma findFence_skip_spaces:
  "(findFence (dropWhile isSpace r) = None) = (findFence r = None)"
proof -
  have "\<forall>c \<in> set (takeWhile isSpace r). c \<noteq> CHR ''`''"
    by (auto dest: set_takeWhileD isSpace_not_tick)
  from findFence_skip [OF this, of "dropWhile isSpace r"] show ?thesis by simp
qed

lemma findFence_skip_tag:
  "(findFence (if prefix ''json'' r0 then drop 4 r0 else r0) = None) = (findFence r0 = None)"
proof (cases "prefix ''json'' r0")
  case True
  then have r0: "r0 = ''json'' @ drop 4 r0" by (auto simp: prefix_def)
  have "(findFence (''json'' @ drop 4 r0) = None) = (findFence (drop 4 r0) = None)"
    by (rule findFence_skip) simp
  with r0 True show ?thesis by simp
next
  case False
  then show ?thesis by simp
qed

lemma lazy_after_spaces:
  "firstSome (\<lambda>k. lazyUntilFence (drop k r1)) (rev [0 ..< Suc (length (takeWhile isSpace r1))])
     = lazyUntilFence (dropWhile isSpace r1)"
proof -
  let ?n = "length (takeWhile isSpace r1)"
  have dn: "drop ?n r1 = dropWhile isSpace r1" by (simp add: dropWhile_eq_drop)
  have rv: "rev [0 ..< Suc ?n] = ?n # rev [0 ..< ?n]" by simp
  show ?thesis
  proof (cases "lazyUntilFence (dropWhile isSpace r1)")
    case (Some g)
    then show ?thesis unfolding rv by (simp add: dn)
  next
    case None
    then have nf: "findFence (dropWhile isSpace r1) = None" by (simp add: lazyUntilFence_def)
    have "\<forall>k \<in> set (rev [0 ..< Suc ?n]). lazyUntilFence (drop k r1) = None"
    proof
      fix k assume "k \<in> set (rev [0 ..< Suc ?n])"
      then have k: "k \<le> ?n" by auto
      have "drop k r1 = drop k (takeWhile isSpace r1 @ dropWhile isSpace r1)" by simp
      also have "\<dots> = drop k (takeWhile isSpace r1) @ drop (k - ?n) (dropWhile isSpace r1)"
        by (rule drop_append)
      also have "drop (k - ?n) (dropWhile isSpace r1) = dropWhile isSpace r1" using k by simp
      finally have d: "drop k r1 = drop k (takeWhile isSpace r1) @ dropWhile isSpace r1" .
      have "\<forall>c \<in> set (drop k (takeWhile isSpace r1)). c \<noteq> CHR ''`''"
        by (auto dest!: in_set_dropD set_takeWhileD isSpace_not_tick)
      from findFence_skip [OF this, of "dropWhile isSpace r1"] nf d
      have "findFence (drop k r1) = None" by simp
      then show "lazyUntilFence (drop k r1) = None" by (simp add: lazyUntilFence_def)
    qed
    then have "firstSome (\<lambda>k. lazyUntilFence (drop k r1)) (rev [0 ..< Suc ?n]) = None"
      by (simp only: firstSome_None)
    with None show ?thesis by simp
  qed
qed

lemma matchFenceAt_fence:
  "matchFenceAt (fence @ r0) =
     lazyUntilFence (dropWhile isSpace (if prefix ''json'' r0 then drop 4 r0 else r0))"
proof (cases "prefix ''json'' r0")
  case False
  then show ?thesis
    unfolding matchFenceAt_prefix lazy_after_spaces by (simp split: option.splits)
next
  case True
  show ?thesis
  proof (cases "lazyUntilFence (dropWhile isSpace (drop 4 r0))")
    case (Some g)
    with True show ?thesis unfolding matchFenceAt_prefix lazy_after_spaces by simp
  next
    case None
    then have "findFence (dropWhile isSpace (drop 4 r0)) = None" by (simp add: lazyUntilFence_def)
    then have "findFence (drop 4 r0) = None" by (simp only: findFence_skip_spaces)
    with True have "findFence r0 = None" using findFence_skip_tag [of r0] by simp
    then have "findFence (dropWhile isSpace r0) = None" by (simp only: findFence_skip_spaces)
    then have "lazyUntilFence (dropWhile isSpace r0) = None" by (simp add: lazyUntilFence_def)
    with None True show ?thesis unfolding matchFenceAt_prefix lazy_after_spaces by simp
  qed
qed

lemma matchFence_first:
  "matchFence response =
     (case findFence response of
        None \<Rightarrow> None
      | Some i \<Rightarrow>
          lazyUntilFence (dropWhile isSpace
            (if prefix ''json'' (drop (i + 3) response) then drop 4 (drop (i + 3) response)
             else drop (i + 3) response)))"
proof (induction response)
  case Nil
  show ?case by (simp add: matchFenceAt_def fence_def)
next
  case (Cons c cs)
  show ?case
  proof (cases "prefix fence (c # cs)")
    case True
    then obtain r0 where r0: "c # cs = fence @ r0" by (auto simp: prefix_def)
    have d: "drop (0 + 3) (c # cs) = r0" unfolding r0 by (simp add: fence_def)
    have ff: "findFence (c # cs) = Some 0" using True by simp
    have at: "matchFenceAt (c # cs) =
        lazyUntilFence (dropWhile isSpace (if prefix ''json'' r0 then drop 4 r0 else r0))"
      unfolding r0 by (rule matchFenceAt_fence)
    show ?thesis
    proof (cases "matchFenceAt (c # cs)")
      case (Some g)
      then have "matchFence (c # cs) = matchFenceAt (c # cs)" by simp
      then show ?thesis unfolding ff option.case d at .
    next
      case None
      with at have "findFence (dropWhile isSpace (if prefix ''json'' r0 then drop 4 r0 else r0)) = None"
        by (simp add: lazyUntilFence_def)
      then have nf: "findFence r0 = None"
        by (simp only: findFence_skip_spaces findFence_skip_tag)
      have "matchFence cs = None"
      proof (rule ccontr)
        assume "matchFence cs \<noteq> None"
        then have "hasFencedBlock cs" by (simp add: matchFence_None)
        then obtain pre mid post where cs: "cs = pre @ fence @ mid @ fence @ post"
          unfolding hasFencedBlock_def by blast
        have "3 \<le> length ((c # pre) @ fence @ mid)" by (simp add: fence_def)
        then have "drop 3 (((c # pre) @ fence @ mid) @ fence @ post)
            = drop 3 ((c # pre) @ fence @ mid) @ fence @ post"
          by (simp only: drop_append) simp
        moreover have "drop 3 (fence @ r0) = r0" by (simp add: fence_def)
        moreover have "fence @ r0 = ((c # pre) @ fence @ mid) @ fence @ post"
          using r0 cs by simp
        ultimately have "r0 = drop 3 ((c # pre) @ fence @ mid) @ fence @ post" by simp
        with nf findFence_None [of r0] show False by blast
      qed
      with None have "matchFence (c # cs) = matchFenceAt (c # cs)" by simp
      then show ?thesis unfolding ff option.case d at .
    qed
  next
    case False
    then have at: "matchFenceAt (c # cs) = None" by (simp add: matchFenceAt_def)
    have ff: "findFence (c # cs) = map_option Suc (findFence cs)" using False by simp
    have dr: "drop (Suc i + 3) (c # cs) = drop (i + 3) cs" for i
      by (simp only: add_Suc drop_Suc_Cons)
    show ?thesis
    proof (cases "findFence cs")
      case None
      with at ff Cons.IH show ?thesis by simp
    next
      case (Some i)
      have ih: "matchFence cs =
          lazyUntilFence (dropWhile isSpace
            (if prefix ''json'' (drop (i + 3) cs) then drop 4 (drop (i + 3) cs)
             else drop (i + 3) cs))"
        unfolding Cons.IH Some by simp
      have "matchFence (c # cs) = matchFence cs" using at by simp
      with ih show ?thesis unfolding ff Some option.map option.case dr by simp
    qed
  qed
qed

lemma requiredEnum_Some:
  "requiredEnum values obj key = Some s \<longleftrightarrow> map_of obj key = Some (JString s) \<and> s \<in> set values"
  by (auto simp: requiredEnum_def split: option.splits json.splits if_splits)

lemma requiredString_Some:
  "requiredString obj key = Some s \<longleftrightarrow> map_of obj key = Some (JString s)"
  by (auto simp: requiredString_def split: option.splits json.splits)

lemma optionalNumber_Some:
  "optionalNumber obj key = Some v \<longleftrightarrow> holdsOptional JNumber (map_of obj key) v"
  by (auto simp: optionalNumber_def holdsOptional_def split: option.splits json.splits)

lemma optionalString_Some:
  "optionalString obj key = Some v \<longleftrightarrow> holdsOptional JString (map_of obj key) v"
  by (auto simp: optionalString_def holdsOptional_def split: option.splits json.splits)

lemma optionalEnum_Some:
  "optionalEnum values obj key = Some v \<longleftrightarrow>
     holdsOptional JString (map_of obj key) v \<and> (case v of None \<Rightarrow> True | Some d \<Rightarrow> d \<in> set values)"
  by (auto simp: optionalEnum_def holdsOptional_def split: option.splits json.splits if_splits)

lemma SelectorHintSchema_Some: "SelectorHintSchema j = Some h \<longleftrightarrow> conformsSelector j h"
proof (cases j)
  case (JObject obj)
  show ?thesis
    unfolding JObject conformsSelector_def
    by (cases h)
       (auto simp: bind_eq_Some_conv requiredEnum_Some optionalString_Some optionalNumber_Some
          selectorTypes_def)
qed (simp_all add: conformsSelector_def)

lemma selector_field:
  "(case field of None \<Rightarrow> Some None | Some j \<Rightarrow> map_option Some (SelectorHintSchema j)) = Some v
   \<longleftrightarrow> (case v of None \<Rightarrow> field = None
        | Some h \<Rightarrow> (\<exists>sj. field = Some sj \<and> conformsSelector sj h))"
  by (cases field; cases v) (auto simp: SelectorHintSchema_Some)

lemma paramsSchema_Some: "paramsSchema j = Some ps \<longleftrightarrow> conformsParams j ps"
proof (cases j)
  case (JObject obj)
  show ?thesis
    unfolding JObject conformsParams_def
    by (cases ps)
       (auto simp: bind_eq_Some_conv optionalString_Some optionalNumber_Some optionalEnum_Some
          selector_field swipeDirections_def split: option.splits)
qed (simp_all add: conformsParams_def)

lemma params_field:
  "(case field of None \<Rightarrow> Some emptyParams | Some j \<Rightarrow> paramsSchema j) = Some ps
   \<longleftrightarrow> (case field of
          None \<Rightarrow> ps = \<lparr>p_x = None, p_y = None, p_text = None, p_direction = None,
                        p_duration = None, p_selector = None, p_elementDescription = None\<rparr>
        | Some pj \<Rightarrow> conformsParams pj ps)"
  by (cases field) (auto simp: paramsSchema_Some emptyParams_def)

lemma target_field:
  "(case field of None \<Rightarrow> Some ''unknown'' | Some (JString s) \<Rightarrow> Some s | Some _ \<Rightarrow> None) = Some t
   \<longleftrightarrow> (case field of None \<Rightarrow> t = ''unknown'' | Some v \<Rightarrow> v = JString t)"
  by (auto split: option.splits json.splits)

lemma ReasonerOutputSchema_Some: "ReasonerOutputSchema j = Some out \<longleftrightarrow> conformsTo j out"
proof (cases j)
  case (JObject obj)
  show ?thesis
    unfolding JObject conformsTo_def
    by (cases out)
       (auto simp: bind_eq_Some_conv requiredEnum_Some requiredString_Some params_field
          target_field actionKinds_def split: option.splits)
qed (simp_all add: conformsTo_def)

lemma ReasonerOutputSchema_None: "ReasonerOutputSchema j = None \<longleftrightarrow> (\<forall>out. \<not> conformsTo j out)"
  using ReasonerOutputSchema_Some [of j] by (cases "ReasonerOutputSchema j") auto

lemma conformsTo_enums:
  assumes "conformsTo j out"
  shows "action out \<in> set actionKinds
       \<and> (\<forall>d. p_direction (params out) = Some d \<longrightarrow> d \<in> set swipeDirections)
       \<and> (\<forall>h. p_selector (params out) = Some h \<longrightarrow> sh_type h \<in> set selectorTypes)"
proof -
  from assms obtain obj where a: "action out \<in> set actionKinds"
    and p: "case map_of obj ''params'' of
              None \<Rightarrow> params out = \<lparr>p_x = None, p_y = None, p_text = None, p_direction = None,
                                      p_duration = None, p_selector = None,
                                      p_elementDescription = None\<rparr>
            | Some pj \<Rightarrow> conformsParams pj (params out)"
    by (auto simp: conformsTo_def actionKinds_def)
  have "(\<forall>d. p_direction (params out) = Some d \<longrightarrow> d \<in> set swipeDirections)
       \<and> (\<forall>h. p_selector (params out) = Some h \<longrightarrow> sh_type h \<in> set selectorTypes)"
  proof (cases "map_of obj ''params''")
    case None
    with p show ?thesis by simp
  next
    case (Some pj)
    with p have "conformsParams pj (params out)" by simp
    then show ?thesis
      by (auto simp: conformsParams_def conformsSelector_def swipeDirections_def selectorTypes_def)
  qed
  with a show ?thesis by blast
qed

lemma parse_returns:
  "(parseReasonerResponse rt response = Inr out) =
     (\<exists>j. jsonParse rt (extractJsonStr response) = Inr j \<and> conformsTo j out)"
  by (auto simp: parseReasonerResponse_def ReasonerOutputSchema_Some [symmetric]
        split: sum.splits option.splits)

lemma parse_throws:
  "(parseReasonerResponse rt response = Inl e) =
     (jsonParse rt (extractJsonStr response) = Inl e
      \<or> (\<exists>j. jsonParse rt (extractJsonStr response) = Inr j \<and> (\<forall>out. \<not> conformsTo j out)
             \<and> e = ErrorObj (zodMessage rt j)))"
  by (auto simp: parseReasonerResponse_def ReasonerOutputSchema_None [symmetric]
        split: sum.splits option.splits)

lemma parse_enums:
  assumes "parseReasonerResponse rt response = Inr out"
  shows "action out \<in> set actionKinds
       \<and> (\<forall>d. p_direction (params out) = Some d \<longrightarrow> d \<in> set swipeDirections)
       \<and> (\<forall>h. p_selector (params out) = Some h \<longrightarrow> sh_type h \<in> set selectorTypes)"
  using assms conformsTo_enums unfolding parse_returns by blast

lemma extract_fenced:
  assumes "hasFencedBlock response"
  shows "\<exists>pre tag ws g post. response = pre @ fence @ tag @ ws @ g @ fence @ post
            \<and> (\<forall>j < length pre. \<not> prefix fence (drop j response))
            \<and> (tag = ''json'' \<or> (tag = [] \<and> \<not> prefix ''json'' (ws @ g @ fence @ post)))
            \<and> (\<forall>c \<in> set ws. isSpace c) \<and> \<not> isSpace (hd (g @ fence @ post))
            \<and> (\<forall>j < length g. \<not> prefix fence (drop j (g @ fence @ post)))
            \<and> extractJsonStr response = trim g"
proof -
  from assms obtain g where g: "matchFence response = Some g"
    using matchFence_None [of response] by (cases "matchFence response") auto
  then have ex: "extractJsonStr response = trim g" by (simp add: extractJsonStr_def)
  from g obtain i where i: "findFence response = Some i"
    and lz: "lazyUntilFence (dropWhile isSpace
            (if prefix ''json'' (drop (i + 3) response) then drop 4 (drop (i + 3) response)
             else drop (i + 3) response)) = Some g"
    unfolding matchFence_first by (auto split: option.splits)
  from findFence_position [OF i] obtain pre r0
    where resp: "response = pre @ fence @ r0" and pre: "length pre = i" by blast
  have r0: "drop (i + 3) response = r0" unfolding resp using pre by (simp add: fence_def)
  define tag where "tag = (if prefix ''json'' r0 then ''json'' else [])"
  define r1 where "r1 = (if prefix ''json'' r0 then drop 4 r0 else r0)"
  define ws where "ws = takeWhile isSpace r1"
  define r2 where "r2 = dropWhile isSpace r1"
  from lz obtain k where k: "findFence r2 = Some k" and gk: "g = take k r2"
    unfolding r0 r1_def [symmetric] r2_def [symmetric] by (auto simp: lazyUntilFence_def)
  from findFence_position [OF k] obtain g' post
    where r2: "r2 = g' @ fence @ post" and g': "length g' = k" by blast
  with gk have gg: "g' = g" by simp
  have t: "r0 = tag @ r1" by (auto simp: tag_def r1_def prefix_def)
  have w: "r1 = ws @ r2" by (simp add: ws_def r2_def)
  have 1: "response = pre @ fence @ tag @ ws @ g @ fence @ post"
    using resp t w r2 gg by simp
  have 2: "\<forall>j < length pre. \<not> prefix fence (drop j response)"
    using findFence_first [OF i] pre by simp
  have 3: "tag = ''json'' \<or> (tag = [] \<and> \<not> prefix ''json'' (ws @ g @ fence @ post))"
  proof (cases "prefix ''json'' r0")
    case True
    then show ?thesis by (simp add: tag_def)
  next
    case False
    then have "tag = []" "r1 = r0" by (simp_all add: tag_def r1_def)
    with False w r2 gg show ?thesis by simp
  qed
  have 4: "\<forall>c \<in> set ws. isSpace c" by (auto simp: ws_def dest: set_takeWhileD)
  have "r2 \<noteq> []" using r2 by (simp add: fence_def)
  then have "\<not> isSpace (hd r2)" unfolding r2_def by (rule hd_dropWhile)
  then have 5: "\<not> isSpace (hd (g @ fence @ post))" using r2 gg by simp
  have 6: "\<forall>j < length g. \<not> prefix fence (drop j (g @ fence @ post))"
    using findFence_first [OF k] g' r2 gg by simp
  from 1 2 3 4 5 6 ex show ?thesis by blast
qed

lemma extract_braces:
  assumes "\<not> hasFencedBlock response \<and> hasBraces response"
  shows "\<exists>pre body post. response = pre @ ''{'' @ body @ ''}'' @ post
            \<and> CHR ''{'' \<notin> set pre \<and> CHR ''}'' \<notin> set post
            \<and> extractJsonStr response = ''{'' @ body @ ''}''"
proof -
  from assms have nf: "matchFence response = None" and "matchObject response \<noteq> None"
    by (simp_all add: matchFence_None matchObject_None)
  then obtain m where m: "matchObject response = Some m" by auto
  with nf have e: "extractJsonStr response = m" by (simp add: extractJsonStr_def)
  from matchObject_Some [OF m] obtain pre body post
    where "response = pre @ m @ post" "m = ''{'' @ body @ ''}''"
      "CHR ''{'' \<notin> set pre" "CHR ''}'' \<notin> set post" by blast
  with e have "response = pre @ ''{'' @ body @ ''}'' @ post
            \<and> CHR ''{'' \<notin> set pre \<and> CHR ''}'' \<notin> set post
            \<and> extractJsonStr response = ''{'' @ body @ ''}''" by simp
  then show ?thesis by blast
qed

lemma extract_plain:
  assumes "\<not> hasFencedBlock response \<and> \<not> hasBraces response"
  shows "extractJsonStr response = trim response"
proof -
  from assms have "matchFence response = None" "matchObject response = None"
    by (simp_all add: matchFence_None matchObject_None)
  then show ?thesis by (simp add: extractJsonStr_def)
qed

text \<open>
  Claim C9.  For every input text the response parser either returns an output or throws.
  It returns an output exactly when \<open>JSON.parse\<close> of the extracted text yields a value that
  conforms to the schema, and the output is then the one that value validates to: its
  thought and action are the strings the value holds, the action one of the six action
  kinds, and each parameter is the entry of the value's \<open>params\<close>, of the declared type and
  enumeration.  Otherwise it throws, what \<open>JSON.parse\<close> threw or the validation error, so
  no default action is ever substituted.  The text handed to \<open>JSON.parse\<close> is, when the
  response has a fenced block, the trimmed content of the first one: what lies between the
  first fence of the response, the tag \<open>json\<close> if it follows and all white space after
  that, and the next fence; else the span from the first opening brace to the last closing
  brace when there is one; else the trimmed response.
\<close>

theorem parseReasonerResponse_validated:
  "((parseReasonerResponse rt response = Inr out) =
      (\<exists>j. jsonParse rt (extractJsonStr response) = Inr j \<and> conformsTo j out))
   \<and> ((parseReasonerResponse rt response = Inl e) =
        (jsonParse rt (extractJsonStr response) = Inl e
         \<or> (\<exists>j. jsonParse rt (extractJsonStr response) = Inr j \<and> (\<forall>out. \<not> conformsTo j out)
                \<and> e = ErrorObj (zodMessage rt j))))
   \<and> (parseReasonerResponse rt response = Inr out \<longrightarrow>
        action out \<in> set actionKinds
        \<and> (\<forall>d. p_direction (params out) = Some d \<longrightarrow> d \<in> set swipeDirections)
        \<and> (\<forall>h. p_selector (params out) = Some h \<longrightarrow> sh_type h \<in> set selectorTypes))
   \<and> (hasFencedBlock response \<longrightarrow>
        (\<exists>pre tag ws g post. response = pre @ fence @ tag @ ws @ g @ fence @ post
            \<and> (\<forall>j < length pre. \<not> prefix fence (drop j response))
            \<and> (tag = ''json'' \<or> (tag = [] \<and> \<not> prefix ''json'' (ws @ g @ fence @ post)))
            \<and> (\<forall>c \<in> set ws. isSpace c) \<and> \<not> isSpace (hd (g @ fence @ post))
            \<and> (\<forall>j < length g. \<not> prefix fence (drop j (g @ fence @ post)))
            \<and> extractJsonStr response = trim g))
   \<and> (\<not> hasFencedBlock response \<and> hasBraces response \<longrightarrow>
        (\<exists>pre body post. response = pre @ ''{'' @ body @ ''}'' @ post
            \<and> CHR ''{'' \<notin> set pre \<and> CHR ''}'' \<notin> set post
            \<and> extractJsonStr response = ''{'' @ body @ ''}''))
   \<and> (\<not> hasFencedBlock response \<and> \<not> hasBraces response \<longrightarrow>
        extractJsonStr response = trim response)"
  apply (intro conjI)
       apply (rule parse_returns)
      apply (rule parse_throws)
     apply (rule impI, erule parse_enums)
    apply (rule impI, erule extract_fenced)
   apply (rule impI, erule extract_braces)
  apply (rule impI, erule extract_plain)
  done

lemma sampleResponse_fenced: "hasFencedBlock sampleResponse"
proof -
  have "sampleResponse = ''Sure: '' @ fence
      @ ''json {\"thought\":\"tap login\",\"action\":\"click\",\"params\":{\"x\":540,\"y\":660}} ''
      @ fence @ '' ok''"
    by (simp add: sampleResponse_def fence_def)
  then show ?thesis unfolding hasFencedBlock_def by blast
qed

lemma sampleResponse_extract:
  "extractJsonStr sampleResponse
     = ''{\"thought\":\"tap login\",\"action\":\"click\",\"params\":{\"x\":540,\"y\":660}}''"
  by (simp add: extractJsonStr_def sampleResponse_def matchFenceAt_def fence_def lazyUntilFence_def
      isSpace_def trim_def Let_def)

lemma sampleResponse_parsed:
  "parseReasonerResponse sampleRuntime sampleResponse =
     Inr \<lparr>thought = ''tap login'', action = ''click'',
          params = \<lparr>p_x = Some 540, p_y = Some 660, p_text = None, p_direction = None,
                     p_duration = None, p_selector = None, p_elementDescription = None\<rparr>,
          targetElement = ''unknown''\<rparr>"
  by (simp add: parseReasonerResponse_def sampleResponse_extract sampleRuntime_def
      requiredString_def requiredEnum_def optionalNumber_def optionalString_def optionalEnum_def
      actionKinds_def)

lemma bad_action_extract: "extractJsonStr ''{\"thought\":\"hm\",\"action\":\"tap\"}'' = ''{\"thought\":\"hm\",\"action\":\"tap\"}''"
  by (simp add: extractJsonStr_def matchFenceAt_def fence_def matchObjectAt_def)

lemma bad_action_rejected:
  "\<forall>out. \<not> conformsTo (JObject [(''thought'', JString ''hm''), (''action'', JString ''tap'')]) out"
  by (auto simp: conformsTo_def)

theorem parseReasonerResponse_validated_witness:
  "hasFencedBlock sampleResponse
   \<and> parseReasonerResponse sampleRuntime sampleResponse =
       Inr \<lparr>thought = ''tap login'', action = ''click'',
            params = \<lparr>p_x = Some 540, p_y = Some 660, p_text = None, p_direction = None,
                       p_duration = None, p_selector = None, p_elementDescription = None\<rparr>,
            targetElement = ''unknown''\<rparr>
   \<and> ''click'' \<in> set actionKinds
   \<and> (\<exists>g. extractJsonStr sampleResponse = trim g)
   \<and> jsonParse sampleRuntime (extractJsonStr ''{\"thought\":\"hm\",\"action\":\"tap\"}'')
       = Inr (JObject [(''thought'', JString ''hm''), (''action'', JString ''tap'')])
   \<and> (\<forall>out. \<not> conformsTo (JObject [(''thought'', JString ''hm''), (''action'', JString ''tap'')]) out)
   \<and> parseReasonerResponse sampleRuntime ''{\"thought\":\"hm\",\"action\":\"tap\"}''
       = Inl (ErrorObj ''Invalid input'')"
proof -
  note ok = parseReasonerResponse_validated [of sampleRuntime sampleResponse
      "\<lparr>thought = ''tap login'', action = ''click'',
            params = \<lparr>p_x = Some 540, p_y = Some 660, p_text = None, p_direction = None,
                       p_duration = None, p_selector = None, p_elementDescription = None\<rparr>,
            targetElement = ''unknown''\<rparr>"]
  note bad = parseReasonerResponse_validated [of sampleRuntime "''{\"thought\":\"hm\",\"action\":\"tap\"}''"
      _ "ErrorObj ''Invalid input''"]
  have j: "jsonParse sampleRuntime (extractJsonStr ''{\"thought\":\"hm\",\"action\":\"tap\"}'')
       = Inr (JObject [(''thought'', JString ''hm''), (''action'', JString ''tap'')])"
    by (simp add: sampleRuntime_def bad_action_extract)
  have z: "ErrorObj ''Invalid input'' = ErrorObj (zodMessage sampleRuntime
       (JObject [(''thought'', JString ''hm''), (''action'', JString ''tap'')]))"
    by (simp add: sampleRuntime_def)
  have 1: "''click'' \<in> set actionKinds"
    using mp [OF ok [THEN conjunct2, THEN conjunct2, THEN conjunct1] sampleResponse_parsed]
    by simp
  have 2: "\<exists>g. extractJsonStr sampleResponse = trim g"
    using mp [OF ok [THEN conjunct2, THEN conjunct2, THEN conjunct2, THEN conjunct1]
        sampleResponse_fenced]
    by blast
  have 3: "parseReasonerResponse sampleRuntime ''{\"thought\":\"hm\",\"action\":\"tap\"}''
       = Inl (ErrorObj ''Invalid input'')"
    unfolding bad [THEN conjunct2, THEN conjunct1]
    using j z bad_action_rejected by blast
  show ?thesis
    by (intro conjI sampleResponse_fenced sampleResponse_parsed 1 2 3 j bad_action_rejected)
qed

text \<open>
  A value whose \<open>selector\<close> is a number does not conform, and the schema rejects it.
\<close>

lemma selector_must_be_object:
  "ReasonerOutputSchema
     (JObject [(''thought'', JString ''tap''), (''action'', JString ''click''),
               (''params'', JObject [(''selector'', JNumber 42)])]) = None
   \<and> (\<forall>out. \<not> conformsTo
          (JObject [(''thought'', JString ''tap''), (''action'', JString ''click''),
                    (''params'', JObject [(''selector'', JNumber 42)])]) out)"
proof
  show "ReasonerOutputSchema
     (JObject [(''thought'', JString ''tap''), (''action'', JString ''click''),
               (''params'', JObject [(''selector'', JNumber 42)])]) = None"
    by (simp add: requiredString_def requiredEnum_def actionKinds_def optionalNumber_def
        optionalString_def optionalEnum_def)
  show "\<forall>out. \<not> conformsTo
          (JObject [(''thought'', JString ''tap''), (''action'', JString ''click''),
                    (''params'', JObject [(''selector'', JNumber 42)])]) out"
    by (auto simp: conformsTo_def conformsParams_def conformsSelector_def split: option.splits)
qed

section \<open>Properties of the executor, the reasoner and the observer\<close>

lemma executorSwitch_Return:
  "executorSwitch rt d now a this tr = (Inr (Return patch), this1, tr1) \<Longrightarrow>
     action a = ''done'' \<and> this1 = this \<and> tr1 = tr
     \<and> patch = emptyPatch\<lparr>u_isComplete := Some True,
                            u_actionHistory := Some [''Goal completed: '' @ thought a]\<rparr>"
  unfolding executorSwitch_def
  by (auto simp: Let_def split: if_splits option.splits sum.splits prod.splits)

lemma executorSwitch_Break:
  "executorSwitch rt d now a this tr = (Inr (Break entry), this1, tr1) \<Longrightarrow> action a \<noteq> ''done''"
  unfolding executorSwitch_def
  by (auto simp: Let_def split: if_splits option.splits sum.splits prod.splits)

text \<open>
  Claim C4, amended.  For every pending action other than \<open>done\<close> and every prior
  \<open>retryCount\<close>, when the executor completes the action without a throw the patch it returns
  sets \<open>retryCount\<close> to 0.  For \<open>done\<close> the patch sets \<open>isComplete\<close> and the history entry only:
  it holds no \<open>retryCount\<close>, and the merged state keeps the prior value.
\<close>

theorem executor_success_patch:
  assumes a: "lastAction state = Some a"
    and ok: "executorTry rt d now a this tr = (Inr patch, this1, tr1)"
  shows "executor rt d now state this tr = (patch, this1, tr1)
       \<and> (action a \<noteq> ''done'' \<longrightarrow> u_retryCount patch = Some 0)
       \<and> (action a = ''done'' \<longrightarrow>
            patch = emptyPatch\<lparr>u_isComplete := Some True,
                                u_actionHistory := Some [''Goal completed: '' @ thought a]\<rparr>
            \<and> u_retryCount patch = None
            \<and> retryCount (applyPatch state patch) = retryCount state)"
proof -
  have ex: "executor rt d now state this tr = (patch, this1, tr1)"
    using a ok by (simp add: executor_def)
  obtain r this0 tr0 where sw: "executorSwitch rt d now a this tr = (r, this0, tr0)"
    by (cases "executorSwitch rt d now a this tr") auto
  show ?thesis
  proof (cases r)
    case (Inl e)
    with ok sw show ?thesis by (simp add: executorTry_def)
  next
    case (Inr outcome)
    show ?thesis
    proof (cases outcome)
      case (Break entry)
      with Inr sw have nd: "action a \<noteq> ''done''" by (auto dest: executorSwitch_Break)
      from ok sw Inr Break have "u_retryCount patch = Some 0"
        by (auto simp: executorTry_def split: sum.splits)
      with ex nd show ?thesis by simp
    next
      case (Return p)
      with Inr sw have dn: "action a = ''done''"
        and p: "p = emptyPatch\<lparr>u_isComplete := Some True,
                                u_actionHistory := Some [''Goal completed: '' @ thought a]\<rparr>"
        by (auto dest: executorSwitch_Return)
      from ok sw Inr Return have "patch = p" by (simp add: executorTry_def)
      with ex dn p show ?thesis by (simp add: emptyPatch_def applyPatch_def)
    qed
  qed
qed

theorem executor_success_patch_witness:
  "lastAction (sampleState 2 (Some (sampleAction ''click'' (emptyParams\<lparr>p_x := Some 540, p_y := Some 660\<rparr>))))
     = Some (sampleAction ''click'' (emptyParams\<lparr>p_x := Some 540, p_y := Some 660\<rparr>))
   \<and> executor sampleRuntime (stubDriver (Inr (notFound None))) 0
        (sampleState 2 (Some (sampleAction ''click'' (emptyParams\<lparr>p_x := Some 540, p_y := Some 660\<rparr>))))
        (freshLocator None) []
      = (emptyPatch\<lparr>u_actionHistory := Some [''Clicked at (<number>, <number>) - Login button''],
                      u_retryCount := Some 0\<rparr>,
         freshLocator None, [Tap 540 660, WaitFor 500])"
proof -
  let ?a = "sampleAction ''click'' (emptyParams\<lparr>p_x := Some 540, p_y := Some 660\<rparr>)"
  let ?p = "emptyPatch\<lparr>u_actionHistory := Some [''Clicked at (<number>, <number>) - Login button''],
                      u_retryCount := Some 0\<rparr>"
  have a: "lastAction (sampleState 2 (Some ?a)) = Some ?a" by (simp add: sampleState_def)
  have ok: "executorTry sampleRuntime (stubDriver (Inr (notFound None))) 0 ?a (freshLocator None) []
      = (Inr ?p, freshLocator None, [Tap 540 660, WaitFor 500])"
    by (simp add: executorTry_def executorSwitch_def sampleAction_def emptyParams_def stubDriver_def
        sampleRuntime_def DEFAULT_WAIT_MS_def)
  from executor_success_patch [OF a ok] a show ?thesis by simp
qed

text \<open>
  The claim as written includes \<open>done\<close>.  With \<open>retryCount = 2\<close> and a pending \<open>done\<close> the patch
  has no \<open>retryCount\<close> and the state after the merge still has \<open>retryCount = 2\<close>.
\<close>

theorem executor_done_counterexample:
  "executor sampleRuntime (stubDriver (Inr (notFound None))) 0
        (sampleState 2 (Some (sampleAction ''done'' emptyParams))) (freshLocator None) []
      = (emptyPatch\<lparr>u_isComplete := Some True,
                      u_actionHistory := Some [''Goal completed: the login form is visible'']\<rparr>,
         freshLocator None, [])
   \<and> u_retryCount (emptyPatch\<lparr>u_isComplete := Some True,
                      u_actionHistory := Some [''Goal completed: the login form is visible'']\<rparr>) = None
   \<and> retryCount (applyPatch (sampleState 2 (Some (sampleAction ''done'' emptyParams)))
        (emptyPatch\<lparr>u_isComplete := Some True,
                      u_actionHistory := Some [''Goal completed: the login form is visible'']\<rparr>)) = 2"
  by (simp add: executor_def executorTry_def executorSwitch_def sampleAction_def sampleState_def
      emptyPatch_def applyPatch_def)


























lemma observer_no_retryCount:
  "u_retryCount (emptyPatch\<lparr>u_errors := Some [msg]\<rparr>) = None"
  by (simp add: emptyPatch_def)




lemma executorSwitch_click_coordinates:
  assumes "action a = ''click''" "p_selector (params a) = Some selector"
    "sh_type selector = ''coordinates''"
  shows "executorSwitch rt d now a this tr =
     (case (p_x (params a), p_y (params a)) of
        (Some x, Some y) \<Rightarrow>
          (case tap d tr x y of
             Inl e \<Rightarrow> (Inl e, this, tr @ [Tap x y])
           | Inr u \<Rightarrow>
               (Inr (Break (''Clicked at ('' @ numberToString rt x @ '', ''
                             @ numberToString rt y @ '') - '' @ targetElement a)),
                this, tr @ [Tap x y]))
      | _ \<Rightarrow>
          (Inl (ErrorObj ''Click action requires x and y coordinates or selector hint''),
           this, tr))"
  using assms by (simp add: executorSwitch_def)

text \<open>
  Claim C10.  For a click whose selector hint has type \<open>coordinates\<close> the executor never
  calls the hybrid locator: the locator, and with it the healing log, is unchanged; the
  only driver calls are a tap at \<open>params.x\<close>, \<open>params.y\<close> and the settle delay; the action
  fails when either coordinate is missing; and the selector's own \<open>x\<close> and \<open>y\<close> do not
  influence the result.  The locator itself answers a coordinates locator as found without
  asking the driver, and \<open>locate\<close> would log a selector success for it.
\<close>

theorem click_coordinates_bypasses_locator:
  assumes la: "lastAction state = Some a"
    and click: "action a = ''click''"
    and sel: "p_selector (params a) = Some selector"
    and coord: "sh_type selector = ''coordinates''"
  shows "fst (snd (executor rt d now state this tr)) = this
       \<and> (p_x (params a) = None \<or> p_y (params a) = None \<longrightarrow>
            executor rt d now state this tr =
              (emptyPatch\<lparr>u_errors := Some [''Executor failed: Click action requires x and y coordinates or selector hint''],
                           u_retryCount := Some (retryCount state + 1),
                           u_actionHistory := Some [''FAILED: click - Click action requires x and y coordinates or selector hint'']\<rparr>,
               this, tr))
       \<and> (\<forall>x y. p_x (params a) = Some x \<and> p_y (params a) = Some y \<longrightarrow>
            snd (snd (executor rt d now state this tr)) \<in>
              {tr @ [Tap x y], tr @ [Tap x y, WaitFor DEFAULT_WAIT_MS]}
            \<and> (tap d tr x y = Inr () \<and> waitFor d (tr @ [Tap x y]) DEFAULT_WAIT_MS = Inr () \<longrightarrow>
                 executor rt d now state this tr =
                   (emptyPatch\<lparr>u_actionHistory := Some [''Clicked at ('' @ numberToString rt x @ '', ''
                                   @ numberToString rt y @ '') - '' @ targetElement a],
                                u_retryCount := Some 0\<rparr>,
                    this, tr @ [Tap x y, WaitFor DEFAULT_WAIT_MS])))
       \<and> executor rt d now
            (state\<lparr>lastAction := Some (a\<lparr>params := (params a)\<lparr>p_selector :=
                       Some (selector\<lparr>sh_x := sx, sh_y := sy\<rparr>)\<rparr>\<rparr>)\<rparr>) this tr
          = executor rt d now state this tr
       \<and> trySelector d (Coordinates cx cy) tr =
            (Inr \<lparr>er_found = True, er_x = Some cx, er_y = Some cy, er_width = None,
                  er_height = None, er_text = None, er_error = None\<rparr>, tr)
       \<and> (\<exists>r this'. locate d now (Coordinates cx cy) description this tr = (Inr r, this', tr)
             \<and> lr_found r \<and> lr_method r = ''selector''
             \<and> length (healingLog this') = length (healingLog this) + 1)"
proof -
  note sw = executorSwitch_click_coordinates [OF click sel coord, of rt d now this tr]
  have c1: "fst (snd (executor rt d now state this tr)) = this"
    using la by (auto simp: executor_def executorTry_def sw Let_def split: option.splits sum.splits)
  have c2: "p_x (params a) = None \<or> p_y (params a) = None \<longrightarrow>
            executor rt d now state this tr =
              (emptyPatch\<lparr>u_errors := Some [''Executor failed: Click action requires x and y coordinates or selector hint''],
                           u_retryCount := Some (retryCount state + 1),
                           u_actionHistory := Some [''FAILED: click - Click action requires x and y coordinates or selector hint'']\<rparr>,
               this, tr)"
    using la click by (auto simp: executor_def executorTry_def sw Let_def split: option.splits)
  have c3: "\<forall>x y. p_x (params a) = Some x \<and> p_y (params a) = Some y \<longrightarrow>
            snd (snd (executor rt d now state this tr)) \<in>
              {tr @ [Tap x y], tr @ [Tap x y, WaitFor DEFAULT_WAIT_MS]}
            \<and> (tap d tr x y = Inr () \<and> waitFor d (tr @ [Tap x y]) DEFAULT_WAIT_MS = Inr () \<longrightarrow>
                 executor rt d now state this tr =
                   (emptyPatch\<lparr>u_actionHistory := Some [''Clicked at ('' @ numberToString rt x @ '', ''
                                   @ numberToString rt y @ '') - '' @ targetElement a],
                                u_retryCount := Some 0\<rparr>,
                    this, tr @ [Tap x y, WaitFor DEFAULT_WAIT_MS]))"
    using la by (auto simp: executor_def executorTry_def sw Let_def split: sum.splits)
  let ?a' = "a\<lparr>params := (params a)\<lparr>p_selector := Some (selector\<lparr>sh_x := sx, sh_y := sy\<rparr>)\<rparr>\<rparr>"
  have sw': "executorSwitch rt d now ?a' this tr = executorSwitch rt d now a this tr"
    using click sel coord
    by (simp add: sw executorSwitch_click_coordinates [of ?a' "selector\<lparr>sh_x := sx, sh_y := sy\<rparr>"]
        split: option.splits sum.splits)
  have c4: "executor rt d now (state\<lparr>lastAction := Some ?a'\<rparr>) this tr = executor rt d now state this tr"
    using la by (simp add: executor_def executorTry_def sw' Let_def split: prod.splits sum.splits)
  have c5: "trySelector d (Coordinates cx cy) tr =
            (Inr \<lparr>er_found = True, er_x = Some cx, er_y = Some cy, er_width = None,
                  er_height = None, er_text = None, er_error = None\<rparr>, tr)"
    by simp
  have c6: "\<exists>r this'. locate d now (Coordinates cx cy) description this tr = (Inr r, this', tr)
             \<and> lr_found r \<and> lr_method r = ''selector''
             \<and> length (healingLog this') = length (healingLog this) + 1"
    by (simp add: locate_def logEvent_def)
  from c1 c2 c3 c4 c5 c6 show ?thesis by blast
qed

theorem click_coordinates_bypasses_locator_witness:
  "action (sampleAction ''click'' (emptyParams\<lparr>p_x := Some 540, p_y := Some 660,
        p_selector := Some \<lparr>sh_type = ''coordinates'', sh_value = None, sh_x = Some 1, sh_y = Some 2\<rparr>\<rparr>))
     = ''click''
   \<and> executor sampleRuntime (stubDriver (Inr (notFound None))) 0
        (sampleState 0 (Some (sampleAction ''click'' (emptyParams\<lparr>p_x := Some 540, p_y := Some 660,
           p_selector := Some \<lparr>sh_type = ''coordinates'', sh_value = None, sh_x = Some 1, sh_y = Some 2\<rparr>\<rparr>))))
        (freshLocator None) []
      = (emptyPatch\<lparr>u_actionHistory := Some [''Clicked at (<number>, <number>) - Login button''],
                      u_retryCount := Some 0\<rparr>,
         freshLocator None, [Tap 540 660, WaitFor 500])
   \<and> healingLog (freshLocator None) = []"
proof -
  let ?sel = "\<lparr>sh_type = ''coordinates'', sh_value = None, sh_x = Some 1, sh_y = Some 2\<rparr>"
  let ?a = "sampleAction ''click'' (emptyParams\<lparr>p_x := Some 540, p_y := Some 660, p_selector := Some ?sel\<rparr>)"
  have la: "lastAction (sampleState 0 (Some ?a)) = Some ?a" by (simp add: sampleState_def)
  have click: "action ?a = ''click''" by (simp add: sampleAction_def)
  have sel: "p_selector (params ?a) = Some ?sel" by (simp add: sampleAction_def)
  have coord: "sh_type ?sel = ''coordinates''" by simp
  have xy: "p_x (params ?a) = Some 540 \<and> p_y (params ?a) = Some 660"
    by (simp add: sampleAction_def emptyParams_def)
  have tapok: "tap (stubDriver (Inr (notFound None))) [] 540 660 = Inr ()
      \<and> waitFor (stubDriver (Inr (notFound None))) ([] @ [Tap 540 660]) DEFAULT_WAIT_MS = Inr ()"
    by (simp add: stubDriver_def)
  from click_coordinates_bypasses_locator [OF la click sel coord,
      of sampleRuntime "stubDriver (Inr (notFound None))" 0 "freshLocator None" "[]"] xy tapok
  have "executor sampleRuntime (stubDriver (Inr (notFound None))) 0 (sampleState 0 (Some ?a))
          (freshLocator None) []
      = (emptyPatch\<lparr>u_actionHistory := Some [''Clicked at ('' @ numberToString sampleRuntime 540 @ '', ''
                                   @ numberToString sampleRuntime 660 @ '') - '' @ targetElement ?a],
                      u_retryCount := Some 0\<rparr>,
         freshLocator None, [] @ [Tap 540 660, WaitFor DEFAULT_WAIT_MS])"
    by blast
  then have "executor sampleRuntime (stubDriver (Inr (notFound None))) 0 (sampleState 0 (Some ?a))
          (freshLocator None) []
      = (emptyPatch\<lparr>u_actionHistory := Some [''Clicked at (<number>, <number>) - Login button''],
                      u_retryCount := Some 0\<rparr>,
         freshLocator None, [Tap 540 660, WaitFor 500])"
    by (simp add: sampleRuntime_def sampleAction_def DEFAULT_WAIT_MS_def)
  with click show ?thesis by (simp add: freshLocator_def)
qed

end
